theory Spec2Isabelle
  imports Main "HOL-Library.Word"
begin

unbundle bit_operations_syntax

section \<open>Bytes and strings\<close>

text \<open>
  A Go \<^verbatim>\<open>[]byte\<close> is a list of 8-bit words; a Go \<^verbatim>\<open>string\<close> is a
  sequence of bytes as well and is modelled by the HOL type \<open>string\<close>, whose characters
  are bytes. \<^verbatim>\<open>[]byte(s)\<close> and \<^verbatim>\<open>string(b)\<close> convert between the two.
\<close>

type_synonym byte = "8 word"
type_synonym bytes = "byte list"

definition bytes_of_string :: "string \<Rightarrow> bytes" where
  "bytes_of_string s = map of_char s"

definition string_of_bytes :: "bytes \<Rightarrow> string" where
  "string_of_bytes b = map (\<lambda>w. char_of (unat w)) b"

section \<open>Library primitives\<close>

subsection \<open>crypto/sha256: SHA-256 (FIPS 180-4)\<close>

text \<open>
  The program calls \<^verbatim>\<open>sha256.Sum256\<close> and hands \<^verbatim>\<open>sha256.New\<close> to the HMAC and
  PBKDF2 packages. The hash is modelled after the standard the package implements:
  32-bit words with wrap-around addition, big-endian packing, the padding rule and the
  64-round compression function.
\<close>

text \<open>
  The round constants: for each of the first sixty-four primes, the first thirty-two bits
  of the fractional part of its cube root.
\<close>

definition sha256_K_table :: "(nat \<times> 32 word) list" where
  "sha256_K_table =
   [(2, 0x428a2f98), (3, 0x71374491), (5, 0xb5c0fbcf), (7, 0xe9b5dba5),
    (11, 0x3956c25b), (13, 0x59f111f1), (17, 0x923f82a4), (19, 0xab1c5ed5),
    (23, 0xd807aa98), (29, 0x12835b01), (31, 0x243185be), (37, 0x550c7dc3),
    (41, 0x72be5d74), (43, 0x80deb1fe), (47, 0x9bdc06a7), (53, 0xc19bf174),
    (59, 0xe49b69c1), (61, 0xefbe4786), (67, 0x0fc19dc6), (71, 0x240ca1cc),
    (73, 0x2de92c6f), (79, 0x4a7484aa), (83, 0x5cb0a9dc), (89, 0x76f988da),
    (97, 0x983e5152), (101, 0xa831c66d), (103, 0xb00327c8), (107, 0xbf597fc7),
    (109, 0xc6e00bf3), (113, 0xd5a79147), (127, 0x06ca6351), (131, 0x14292967),
    (137, 0x27b70a85), (139, 0x2e1b2138), (149, 0x4d2c6dfc), (151, 0x53380d13),
    (157, 0x650a7354), (163, 0x766a0abb), (167, 0x81c2c92e), (173, 0x92722c85),
    (179, 0xa2bfe8a1), (181, 0xa81a664b), (191, 0xc24b8b70), (193, 0xc76c51a3),
    (197, 0xd192e819), (199, 0xd6990624), (211, 0xf40e3585), (223, 0x106aa070),
    (227, 0x19a4c116), (229, 0x1e376c08), (233, 0x2748774c), (239, 0x34b0bcb5),
    (241, 0x391c0cb3), (251, 0x4ed8aa4a), (257, 0x5b9cca4f), (263, 0x682e6ff3),
    (269, 0x748f82ee), (271, 0x78a5636f), (277, 0x84c87814), (281, 0x8cc70208),
    (283, 0x90befffa), (293, 0xa4506ceb), (307, 0xbef9a3f7), (311, 0xc67178f2)]"

definition sha256_K :: "32 word list" where
  "sha256_K = map snd sha256_K_table"

definition cube_root_floor :: "nat \<Rightarrow> nat" where
  "cube_root_floor p =
     (if p < 8 then 1 else if p < 27 then 2 else if p < 64 then 3
      else if p < 125 then 4 else if p < 216 then 5 else 6)"

definition cube_root_bits :: "nat \<times> 32 word \<Rightarrow> bool" where
  "cube_root_bits pk =
     (let c = cube_root_floor (fst pk) * 2 ^ 32 + unat (snd pk)
      in c ^ 3 \<le> fst pk * 2 ^ 96 \<and> fst pk * 2 ^ 96 < (c + 1) ^ 3)"

type_synonym sha256_state =
  "32 word \<times> 32 word \<times> 32 word \<times> 32 word \<times> 32 word \<times> 32 word \<times> 32 word \<times> 32 word"

definition sha256_init :: sha256_state where
  "sha256_init =
   (0x6a09e667, 0xbb67ae85, 0x3c6ef372, 0xa54ff53a,
    0x510e527f, 0x9b05688c, 0x1f83d9ab, 0x5be0cd19)"

definition Ch :: "32 word \<Rightarrow> 32 word \<Rightarrow> 32 word \<Rightarrow> 32 word" where
  "Ch x y z = (x AND y) XOR (NOT x AND z)"

definition Maj :: "32 word \<Rightarrow> 32 word \<Rightarrow> 32 word \<Rightarrow> 32 word" where
  "Maj x y z = (x AND y) XOR (x AND z) XOR (y AND z)"

definition bsig0 :: "32 word \<Rightarrow> 32 word" where
  "bsig0 x = word_rotr 2 x XOR word_rotr 13 x XOR word_rotr 22 x"

definition bsig1 :: "32 word \<Rightarrow> 32 word" where
  "bsig1 x = word_rotr 6 x XOR word_rotr 11 x XOR word_rotr 25 x"

definition ssig0 :: "32 word \<Rightarrow> 32 word" where
  "ssig0 x = word_rotr 7 x XOR word_rotr 18 x XOR drop_bit 3 x"

definition ssig1 :: "32 word \<Rightarrow> 32 word" where
  "ssig1 x = word_rotr 17 x XOR word_rotr 19 x XOR drop_bit 10 x"

text \<open>Big-endian packing of 32-bit and 64-bit words.\<close>

definition be32_bytes :: "32 word \<Rightarrow> bytes" where
  "be32_bytes w = [ucast (drop_bit 24 w), ucast (drop_bit 16 w), ucast (drop_bit 8 w), ucast w]"

definition be64_bytes :: "64 word \<Rightarrow> bytes" where
  "be64_bytes w =
   [ucast (drop_bit 56 w), ucast (drop_bit 48 w), ucast (drop_bit 40 w), ucast (drop_bit 32 w),
    ucast (drop_bit 24 w), ucast (drop_bit 16 w), ucast (drop_bit 8 w), ucast w]"

fun be32_words :: "bytes \<Rightarrow> 32 word list" where
  "be32_words (a # b # c # d # rest) =
     (push_bit 24 (ucast a) OR push_bit 16 (ucast b) OR push_bit 8 (ucast c) OR ucast d)
       # be32_words rest"
| "be32_words _ = []"

text \<open>
  Padding: the byte \<open>0x80\<close>, zero bytes up to 56 modulo 64, and the message length in
  bits as a 64-bit big-endian number.
\<close>

definition sha256_pad :: "bytes \<Rightarrow> bytes" where
  "sha256_pad m =
     m @ [0x80] @ replicate ((119 - length m mod 64) mod 64) 0
       @ be64_bytes (of_nat (8 * length m))"

function chunks :: "nat \<Rightarrow> 'a list \<Rightarrow> 'a list list" where
  "chunks n xs = (if n = 0 \<or> xs = [] then [] else take n xs # chunks n (drop n xs))"
  by pat_completeness auto
termination
  by (relation "measure (\<lambda>(n, xs). length xs)") auto

text \<open>The message schedule: sixteen words of the block, extended to sixty-four.\<close>

fun sha256_extend :: "nat \<Rightarrow> 32 word list \<Rightarrow> 32 word list" where
  "sha256_extend 0 W = W"
| "sha256_extend (Suc k) W =
     (let t = length W in
      sha256_extend k
        (W @ [ssig1 (W ! (t - 2)) + W ! (t - 7) + ssig0 (W ! (t - 15)) + W ! (t - 16)]))"

definition sha256_schedule :: "bytes \<Rightarrow> 32 word list" where
  "sha256_schedule block = sha256_extend 48 (be32_words block)"

fun sha256_round :: "32 word \<times> 32 word \<Rightarrow> sha256_state \<Rightarrow> sha256_state" where
  "sha256_round (k, w) (a, b, c, d, e, f, g, h) =
     (let t1 = h + bsig1 e + Ch e f g + k + w;
          t2 = bsig0 a + Maj a b c
      in (t1 + t2, a, b, c, d + t1, e, f, g))"

fun sha256_add :: "sha256_state \<Rightarrow> sha256_state \<Rightarrow> sha256_state" where
  "sha256_add (a, b, c, d, e, f, g, h) (a', b', c', d', e', f', g', h') =
     (a + a', b + b', c + c', d + d', e + e', f + f', g + g', h + h')"

definition sha256_block :: "bytes \<Rightarrow> sha256_state \<Rightarrow> sha256_state" where
  "sha256_block block st =
     sha256_add st (fold sha256_round (zip sha256_K (sha256_schedule block)) st)"

fun sha256_digest :: "sha256_state \<Rightarrow> bytes" where
  "sha256_digest (a, b, c, d, e, f, g, h) =
     concat (map be32_bytes [a, b, c, d, e, f, g, h])"

definition sha256 :: "bytes \<Rightarrow> bytes" where
  "sha256 m = sha256_digest (fold sha256_block (chunks 64 (sha256_pad m)) sha256_init)"

text \<open>
  \<^verbatim>\<open>sha256.New\<close> as the other packages see it: the hash function with its output and
  block sizes (\<^verbatim>\<open>Size\<close> and \<^verbatim>\<open>BlockSize\<close> of \<^verbatim>\<open>hash.Hash\<close>).
\<close>

record hash_alg =
  hash_sum :: "bytes \<Rightarrow> bytes"
  hash_size :: nat
  hash_block_size :: nat

definition sha256_New :: hash_alg where
  "sha256_New = \<lparr>hash_sum = sha256, hash_size = 32, hash_block_size = 64\<rparr>"

text \<open>\<^verbatim>\<open>sha256.Sum256(data)\<close> returns the digest as a \<^verbatim>\<open>[32]byte\<close>.\<close>

definition sha256_Sum256 :: "bytes \<Rightarrow> bytes" where
  "sha256_Sum256 data = sha256 data"

subsection \<open>crypto/hmac: the keyed hash as a streaming object (RFC 2104)\<close>

text \<open>
  \<^verbatim>\<open>hmac.New(h, key)\<close> prepares the two padded keys (a key longer than a block is hashed
  first), \<^verbatim>\<open>Write\<close> appends to the message, \<^verbatim>\<open>Reset\<close> forgets it, and
  \<^verbatim>\<open>Sum(b)\<close> appends the authentication code of the message written so far to \<open>b\<close>.
\<close>

record hmac =
  hmac_alg :: hash_alg
  hmac_ipad :: bytes
  hmac_opad :: bytes
  hmac_written :: bytes

definition hmac_New :: "hash_alg \<Rightarrow> bytes \<Rightarrow> hmac" where
  "hmac_New h key =
     (let blocksize = hash_block_size h;
          key' = (if length key > blocksize then hash_sum h key else key);
          padded = key' @ replicate (blocksize - length key') 0
      in \<lparr>hmac_alg = h,
          hmac_ipad = map (\<lambda>b. b XOR 0x36) padded,
          hmac_opad = map (\<lambda>b. b XOR 0x5c) padded,
          hmac_written = []\<rparr>)"

definition hmac_Write :: "hmac \<Rightarrow> bytes \<Rightarrow> hmac" where
  "hmac_Write m p = m\<lparr>hmac_written := hmac_written m @ p\<rparr>"

definition hmac_Reset :: "hmac \<Rightarrow> hmac" where
  "hmac_Reset m = m\<lparr>hmac_written := []\<rparr>"

definition hmac_Sum :: "hmac \<Rightarrow> bytes \<Rightarrow> bytes" where
  "hmac_Sum m b =
     b @ hash_sum (hmac_alg m)
           (hmac_opad m @ hash_sum (hmac_alg m) (hmac_ipad m @ hmac_written m))"

subsection \<open>golang.org/x/crypto/pbkdf2: key derivation (RFC 8018)\<close>

text \<open>
  \<^verbatim>\<open>pbkdf2.Key(password, salt, iter, keyLen, h)\<close> keeps one HMAC object keyed with the
  password. For each output block it computes \<open>U\<^sub>1\<close> from the salt and the big-endian
  block number, then runs \<^verbatim>\<open>for n := 2; n <= iter; n++\<close>, replacing \<open>U\<close> by its
  authentication code and XOR-ing it into the block \<open>T\<close>. The result is the first
  \<open>keyLen\<close> bytes of the blocks.
\<close>

definition xor_bytes :: "bytes \<Rightarrow> bytes \<Rightarrow> bytes" where
  "xor_bytes T U = map2 (XOR) T U"

function pbkdf2_rounds :: "hmac \<Rightarrow> int \<Rightarrow> int \<Rightarrow> bytes \<Rightarrow> bytes \<Rightarrow> bytes" where
  "pbkdf2_rounds prf n iter U T =
     (if n \<le> iter
      then (let U' = hmac_Sum (hmac_Write (hmac_Reset prf) U) []
            in pbkdf2_rounds prf (n + 1) iter U' (xor_bytes T U'))
      else T)"
  by pat_completeness auto
termination
  by (relation "measure (\<lambda>(prf, n, iter, U, T). nat (iter + 1 - n))") auto

definition pbkdf2_block :: "hmac \<Rightarrow> bytes \<Rightarrow> int \<Rightarrow> nat \<Rightarrow> bytes" where
  "pbkdf2_block prf salt iter block =
     (let buf = be32_bytes (of_nat block);
          T = hmac_Sum (hmac_Write (hmac_Write (hmac_Reset prf) salt) buf) []
      in pbkdf2_rounds prf 2 iter T T)"

definition pbkdf2_Key :: "bytes \<Rightarrow> bytes \<Rightarrow> int \<Rightarrow> nat \<Rightarrow> hash_alg \<Rightarrow> bytes" where
  "pbkdf2_Key password salt iter keyLen h =
     (let prf = hmac_New h password;
          hashLen = hash_size h;
          numBlocks = (keyLen + hashLen - 1) div hashLen;
          dk = concat (map (pbkdf2_block prf salt iter) [1..<numBlocks + 1])
      in take keyLen dk)"

subsection \<open>encoding/base64: the standard encoding with padding (RFC 4648)\<close>

definition encodeStd :: string where
  "encodeStd = ''ABCDEFGHIJKLMNOPQRSTUVWXYZabcdefghijklmnopqrstuvwxyz0123456789+/''"

definition b64_char :: "32 word \<Rightarrow> char" where
  "b64_char v = encodeStd ! unat (v AND 0x3F)"

text \<open>
  \<^verbatim>\<open>EncodeToString\<close>: every three bytes become four characters; a remainder of one or
  two bytes is encoded into two or three characters and padded with \<open>=\<close>.
\<close>

fun base64_EncodeToString :: "bytes \<Rightarrow> string" where
  "base64_EncodeToString [] = []"
| "base64_EncodeToString [a] =
     (let val = push_bit 16 (ucast a) :: 32 word
      in [b64_char (drop_bit 18 val), b64_char (drop_bit 12 val), CHR ''='', CHR ''=''])"
| "base64_EncodeToString [a, b] =
     (let val = push_bit 16 (ucast a) OR push_bit 8 (ucast b) :: 32 word
      in [b64_char (drop_bit 18 val), b64_char (drop_bit 12 val),
          b64_char (drop_bit 6 val), CHR ''=''])"
| "base64_EncodeToString (a # b # c # rest) =
     (let val = push_bit 16 (ucast a) OR push_bit 8 (ucast b) OR ucast c :: 32 word
      in [b64_char (drop_bit 18 val), b64_char (drop_bit 12 val),
          b64_char (drop_bit 6 val), b64_char val])
     @ base64_EncodeToString rest"

subsection \<open>fmt: the verbs the program uses\<close>

text \<open>
  \<^verbatim>\<open>%d\<close> prints an integer in decimal, with a minus sign when negative and no leading
  zeros; \<^verbatim>\<open>%s\<close> prints a string as it is; \<^verbatim>\<open>%v\<close> prints an error's text; any
  other character of the format is copied. Formats with other verbs, or with arguments
  that do not fit the verbs, are outside the model: the program has none.
\<close>

definition digit_char :: "nat \<Rightarrow> char" where
  "digit_char d = ''0123456789'' ! d"

function decimal :: "nat \<Rightarrow> string" where
  "decimal n = (if n < 10 then [digit_char n] else decimal (n div 10) @ [digit_char (n mod 10)])"
  by pat_completeness auto
termination
  by (relation "measure id") auto

definition fmt_d :: "int \<Rightarrow> string" where
  "fmt_d i = (if i < 0 then CHR ''-'' # decimal (nat (- i)) else decimal (nat i))"

text \<open>
  An \<^verbatim>\<open>error\<close> value: a message, or a message wrapping another error
  (\<^verbatim>\<open>fmt.Errorf\<close> with \<^verbatim>\<open>%w\<close>). \<^verbatim>\<open>Error()\<close> is the whole text.
\<close>

datatype error = Error string | Wrapped string error

fun Error_text :: "error \<Rightarrow> string" where
  "Error_text (Error msg) = msg"
| "Error_text (Wrapped msg err) = msg @ Error_text err"

datatype fmt_arg = IntArg int | StrArg string | ErrArg error

fun fmt_verb :: "char \<Rightarrow> fmt_arg \<Rightarrow> string" where
  "fmt_verb v (IntArg i) = (if v = CHR ''d'' then fmt_d i else undefined)"
| "fmt_verb v (StrArg s) = (if v = CHR ''s'' then s else undefined)"
| "fmt_verb v (ErrArg e) = (if v = CHR ''v'' then Error_text e else undefined)"

fun Sprintf :: "string \<Rightarrow> fmt_arg list \<Rightarrow> string" where
  "Sprintf [] args = []"
| "Sprintf [c] args = (if c = CHR ''%'' then undefined else [c])"
| "Sprintf (c # v # f) args =
     (if c = CHR ''%''
      then (case args of [] \<Rightarrow> undefined | a # args' \<Rightarrow> fmt_verb v a @ Sprintf f args')
      else c # Sprintf (v # f) args)"

subsection \<open>unicode/utf8, strings, bufio, crypto/rand\<close>

text \<open>
  \<^verbatim>\<open>utf8.ValidString\<close>: every character is one of the well-formed byte sequences of
  UTF-8 (no overlong forms, no surrogates, nothing above U+10FFFF).
\<close>

definition utf8_cont :: "byte \<Rightarrow> bool" where
  "utf8_cont b = (0x80 \<le> b \<and> b \<le> 0xBF)"

fun utf8_Valid :: "bytes \<Rightarrow> bool" where
  "utf8_Valid [] = True"
| "utf8_Valid (b # rest) =
     (if b < 0x80 then utf8_Valid rest
      else if 0xC2 \<le> b \<and> b \<le> 0xDF then
        (case rest of c1 # r \<Rightarrow> utf8_cont c1 \<and> utf8_Valid r | _ \<Rightarrow> False)
      else if 0xE0 \<le> b \<and> b \<le> 0xEF then
        (case rest of
           c1 # c2 # r \<Rightarrow>
             (if b = 0xE0 then 0xA0 \<le> c1 \<and> c1 \<le> 0xBF
              else if b = 0xED then 0x80 \<le> c1 \<and> c1 \<le> 0x9F
              else utf8_cont c1)
             \<and> utf8_cont c2 \<and> utf8_Valid r
         | _ \<Rightarrow> False)
      else if 0xF0 \<le> b \<and> b \<le> 0xF4 then
        (case rest of
           c1 # c2 # c3 # r \<Rightarrow>
             (if b = 0xF0 then 0x90 \<le> c1 \<and> c1 \<le> 0xBF
              else if b = 0xF4 then 0x80 \<le> c1 \<and> c1 \<le> 0x8F
              else utf8_cont c1)
             \<and> utf8_cont c2 \<and> utf8_cont c3 \<and> utf8_Valid r
         | _ \<Rightarrow> False)
      else False)"

definition utf8_ValidString :: "string \<Rightarrow> bool" where
  "utf8_ValidString s = utf8_Valid (bytes_of_string s)"

text \<open>\<^verbatim>\<open>strings.TrimRight(s, cutset)\<close> drops the trailing characters that are in the cutset.\<close>

definition strings_TrimRight :: "string \<Rightarrow> string \<Rightarrow> string" where
  "strings_TrimRight s cutset = rev (dropWhile (\<lambda>c. c \<in> set cutset) (rev s))"

section \<open>The program's world\<close>

text \<open>
  What the program reads and writes: the standard input (its bytes, and the error the
  stream ends with, \<^verbatim>\<open>io.EOF\<close> for a regular end), the outcome of the masked terminal
  read, the system random source (the bytes it will deliver, and the error it reports
  when it cannot fill a buffer), the two output streams, and a record of the calls made
  into the random source and the cryptographic packages.
\<close>

datatype lib_call = Rand_Read | Pbkdf2_Key | Hmac_New | Hmac_Write | Hmac_Sum | Sha256_Sum256

record world =
  stdin_data :: string
  stdin_end :: error
  tty_input :: bytes
  tty_err :: "error option"
  rand_pool :: bytes
  rand_err :: error
  calls :: "lib_call list"
  stdout :: string
  stderr :: string
  args0 :: string

definition io_EOF :: error where
  "io_EOF = Error ''EOF''"

definition called :: "lib_call \<Rightarrow> world \<Rightarrow> world" where
  "called c w = w\<lparr>calls := calls w @ [c]\<rparr>"

definition print_out :: "string \<Rightarrow> world \<Rightarrow> world" where
  "print_out s w = w\<lparr>stdout := stdout w @ s\<rparr>"

definition print_err :: "string \<Rightarrow> world \<Rightarrow> world" where
  "print_err s w = w\<lparr>stderr := stderr w @ s\<rparr>"

text \<open>
  \<^verbatim>\<open>rand.Read(b)\<close> fills the whole buffer, or reports an error. The bytes handed out
  are consumed.
\<close>

definition rand_Read :: "bytes \<Rightarrow> world \<Rightarrow> (bytes \<times> error option) \<times> world" where
  "rand_Read b w =
     (let n = length b;
          pool = rand_pool w;
          w' = called Rand_Read (w\<lparr>rand_pool := drop n pool\<rparr>)
      in if n \<le> length pool then ((take n pool, None), w')
         else ((pool @ drop (length pool) b, Some (rand_err w)), w'))"

text \<open>
  \<^verbatim>\<open>bufio.Reader.ReadString(delim)\<close> returns the input up to and including the first
  delimiter; when the stream ends before one is found it returns what it has read
  together with the stream's error.
\<close>

definition ReadString :: "char \<Rightarrow> world \<Rightarrow> (string \<times> error option) \<times> world" where
  "ReadString delim w =
     (let d = stdin_data w in
      if delim \<in> set d
      then (let line = takeWhile (\<lambda>c. c \<noteq> delim) d @ [delim]
            in ((line, None), w\<lparr>stdin_data := drop (length line) d\<rparr>))
      else ((d, Some (stdin_end w)), w\<lparr>stdin_data := []\<rparr>))"

text \<open>\<^verbatim>\<open>term.ReadPassword\<close> returns the typed bytes without the line end, or an error.\<close>

definition term_ReadPassword :: "world \<Rightarrow> (bytes \<times> error option) \<times> world" where
  "term_ReadPassword w =
     (case tty_err w of
        Some e \<Rightarrow> (([], Some e), w)
      | None \<Rightarrow> ((tty_input w, None), w\<lparr>tty_input := []\<rparr>))"

section \<open>The program (main.go)\<close>

text \<open>
  Go's \<^verbatim>\<open>int\<close> is 64 bits wide. The program compares the iteration count with 1,
  prints it and hands it to \<^verbatim>\<open>pbkdf2.Key\<close>; it does no arithmetic on it, so the count
  is modelled as an integer.
\<close>

definition defaultIterations :: int where
  "defaultIterations = 4096"

definition saltLength :: nat where
  "saltLength = 16"

definition keyLength :: nat where
  "keyLength = 32"

record Config =
  UseStdin :: bool
  ShowHelp :: bool
  Iterations :: int

definition Println :: "string \<Rightarrow> world \<Rightarrow> world" where
  "Println s w = print_out (s @ [CHR 0x0A]) w"

definition Printf :: "string \<Rightarrow> fmt_arg list \<Rightarrow> world \<Rightarrow> world" where
  "Printf f args w = print_out (Sprintf f args) w"

definition Fprintf_Stderr :: "string \<Rightarrow> fmt_arg list \<Rightarrow> world \<Rightarrow> world" where
  "Fprintf_Stderr f args w = print_err (Sprintf f args) w"

definition showHelp :: "world \<Rightarrow> world" where
  "showHelp w =
     fold (\<lambda>stmt. stmt)
       [Println ''SCRAM-SHA-256 Password Generator'',
        Println [],
        Println ''USAGE:'',
        Printf (''  %s [OPTIONS]'' @ [CHR 0x0A]) [StrArg (args0 w)],
        Println [],
        Println ''OPTIONS:'',
        Println ''  -stdin           Read password from stdin instead of prompting'',
        Println ''  -h, -help        Show this help message'',
        Println ''  -i, -iterations  Number of PBKDF2 iterations (default: 4096)'',
        Println [],
        Println ''EXAMPLES:'',
        Printf (''  %s                    # Prompt for password'' @ [CHR 0x0A]) [StrArg (args0 w)],
        Printf (''  echo '' @ [CHR 0x27] @ ''mypass'' @ [CHR 0x27]
                  @ '' | %s -stdin  # Read from stdin'' @ [CHR 0x0A]) [StrArg (args0 w)],
        Printf (''  %s -i 8192               # Custom iterations'' @ [CHR 0x0A]) [StrArg (args0 w)],
        Println [],
        Println ''INSTALLATION:'',
        Println ''  go install github.com/SonOfBytes/scram-sha-256@latest'']
       w"

definition promptPassword :: "world \<Rightarrow> (string \<times> error option) \<times> world" where
  "promptPassword w =
     (let w1 = print_out ''Password: '' w;
          ((passwordBytes, err), w2) = term_ReadPassword w1
      in case err of
           Some e \<Rightarrow> (([], Some (Wrapped ''failed to read password: '' e)), w2)
         | None \<Rightarrow> ((string_of_bytes passwordBytes, None), Println [] w2))"

definition readPasswordFromStdin :: "world \<Rightarrow> (string \<times> error option) \<times> world" where
  "readPasswordFromStdin w =
     (let ((password, err), w1) = ReadString (CHR 0x0A) w
      in case err of
           None \<Rightarrow> ((strings_TrimRight password [CHR 0x0D, CHR 0x0A], None), w1)
         | Some e \<Rightarrow>
             (if e \<noteq> io_EOF
              then (([], Some (Wrapped ''failed to read from stdin: '' e)), w1)
              else ((strings_TrimRight password [CHR 0x0D, CHR 0x0A], None), w1)))"

definition validatePassword :: "string \<Rightarrow> error option" where
  "validatePassword password =
     (if length password = 0 then Some (Error ''password cannot be empty'')
      else if \<not> utf8_ValidString password then Some (Error ''password must be valid UTF-8'')
      else None)"

text \<open>The four derivation steps of \<^verbatim>\<open>generateSCRAMSHA256\<close>, as the code writes them.\<close>

definition saltedPassword_of :: "string \<Rightarrow> bytes \<Rightarrow> int \<Rightarrow> bytes" where
  "saltedPassword_of password salt iterations =
     pbkdf2_Key (bytes_of_string password) salt iterations keyLength sha256_New"

definition clientKeyBytes_of :: "bytes \<Rightarrow> bytes" where
  "clientKeyBytes_of saltedPassword =
     (let clientKey = hmac_New sha256_New saltedPassword;
          clientKey = hmac_Write clientKey (bytes_of_string ''Client Key'')
      in hmac_Sum clientKey [])"

definition storedKey_of :: "bytes \<Rightarrow> bytes" where
  "storedKey_of clientKeyBytes = sha256_Sum256 clientKeyBytes"

definition serverKeyBytes_of :: "bytes \<Rightarrow> bytes" where
  "serverKeyBytes_of saltedPassword =
     (let serverKey = hmac_New sha256_New saltedPassword;
          serverKey = hmac_Write serverKey (bytes_of_string ''Server Key'')
      in hmac_Sum serverKey [])"

definition generateSCRAMSHA256 ::
  "string \<Rightarrow> int \<Rightarrow> world \<Rightarrow> (string \<times> error option) \<times> world" where
  "generateSCRAMSHA256 password iterations w =
     (if iterations < 1
      then (([], Some (Error ''iterations must be at least 1'')), w)
      else
        (let ((salt, err), w1) = rand_Read (replicate saltLength 0) w
         in case err of
              Some e \<Rightarrow> (([], Some (Wrapped ''failed to generate salt: '' e)), w1)
            | None \<Rightarrow>
               (let saltedPassword = saltedPassword_of password salt iterations;
                    w2 = called Pbkdf2_Key w1;
                    clientKeyBytes = clientKeyBytes_of saltedPassword;
                    w3 = called Hmac_Sum (called Hmac_Write (called Hmac_New w2));
                    storedKey = storedKey_of clientKeyBytes;
                    w4 = called Sha256_Sum256 w3;
                    serverKeyBytes = serverKeyBytes_of saltedPassword;
                    w5 = called Hmac_Sum (called Hmac_Write (called Hmac_New w4));
                    saltB64 = base64_EncodeToString salt;
                    storedKeyB64 = base64_EncodeToString storedKey;
                    serverKeyB64 = base64_EncodeToString serverKeyBytes;
                    result = Sprintf ''SCRAM-SHA-256$%d:%s$%s:%s''
                               [IntArg iterations, StrArg saltB64,
                                StrArg storedKeyB64, StrArg serverKeyB64]
                in ((result, None), w5))))"

text \<open>
  \<^verbatim>\<open>main\<close>, after the flags are parsed into a \<open>Config\<close>: the exit status and the
  world it leaves. A run that returns from \<^verbatim>\<open>main\<close> exits with status 0.
\<close>

definition main :: "Config \<Rightarrow> world \<Rightarrow> int \<times> world" where
  "main config w =
     (if ShowHelp config then (0, showHelp w)
      else
        (let ((password, err), w1) =
               (if UseStdin config then readPasswordFromStdin w else promptPassword w)
         in case err of
              Some e \<Rightarrow>
                (1, Fprintf_Stderr
                      ((if UseStdin config then ''Error reading password from stdin: %v''
                        else ''Error reading password: %v'') @ [CHR 0x0A])
                      [ErrArg e] w1)
            | None \<Rightarrow>
               (case validatePassword password of
                  Some e \<Rightarrow>
                    (1, Fprintf_Stderr (''Invalid password: %v'' @ [CHR 0x0A]) [ErrArg e] w1)
                | None \<Rightarrow>
                   (let ((hash, err), w2) = generateSCRAMSHA256 password (Iterations config) w1
                    in case err of
                         Some e \<Rightarrow>
                           (1, Fprintf_Stderr
                                 (''Error generating SCRAM-SHA-256: %v'' @ [CHR 0x0A])
                                 [ErrArg e] w2)
                       | None \<Rightarrow> (0, Println hash w2)))))"

section \<open>The specification's notions\<close>

subsection \<open>HMAC-SHA-256 and PBKDF2 as the standards define them\<close>

text \<open>
  RFC 2104: \<open>H((K\<^sub>0 \<oplus> opad) || H((K\<^sub>0 \<oplus> ipad) || text))\<close>, where \<open>K\<^sub>0\<close> is the key
  (hashed first when longer than a block) padded with zeros to the 64-byte block,
  \<open>ipad\<close> is the byte \<open>0x36\<close> and \<open>opad\<close> the byte \<open>0x5c\<close>, each repeated 64 times.
\<close>

definition HMAC_SHA256 :: "bytes \<Rightarrow> bytes \<Rightarrow> bytes" where
  "HMAC_SHA256 K text =
     (let K' = (if length K > 64 then sha256 K else K);
          K0 = K' @ replicate (64 - length K') 0
      in sha256 (xor_bytes K0 (replicate 64 0x5c)
                 @ sha256 (xor_bytes K0 (replicate 64 0x36) @ text)))"

text \<open>
  RFC 8018, section 5.2, with HMAC-SHA-256 as the pseudorandom function:
  \<open>U\<^sub>1 = PRF(P, S || INT(i))\<close>, \<open>U\<^sub>j = PRF(P, U\<^sub>j\<^sub>-\<^sub>1)\<close>,
  \<open>T\<^sub>i = U\<^sub>1 \<oplus> \<dots> \<oplus> U\<^sub>c\<close>, and the key is the first \<open>dkLen\<close> bytes of
  \<open>T\<^sub>1 || \<dots> || T\<^sub>l\<close> with \<open>l = \<lceil>dkLen / 32\<rceil>\<close>.
\<close>

definition PBKDF2_U :: "bytes \<Rightarrow> bytes \<Rightarrow> nat \<Rightarrow> nat \<Rightarrow> bytes" where
  "PBKDF2_U P S i j = (HMAC_SHA256 P ^^ j) (S @ be32_bytes (of_nat i))"

definition PBKDF2_F :: "bytes \<Rightarrow> bytes \<Rightarrow> nat \<Rightarrow> nat \<Rightarrow> bytes" where
  "PBKDF2_F P S c i = foldl xor_bytes (PBKDF2_U P S i 1) (map (PBKDF2_U P S i) [2..<c + 1])"

definition PBKDF2_HMAC_SHA256 :: "bytes \<Rightarrow> bytes \<Rightarrow> nat \<Rightarrow> nat \<Rightarrow> bytes" where
  "PBKDF2_HMAC_SHA256 P S c dkLen =
     (let l = (dkLen + 31) div 32
      in take dkLen (concat (map (PBKDF2_F P S c) [1..<l + 1])))"

text \<open>The SCRAM keys of RFC 5802 and RFC 7677, as the specification lists them.\<close>

definition SaltedPassword :: "bytes \<Rightarrow> bytes \<Rightarrow> nat \<Rightarrow> bytes" where
  "SaltedPassword password salt iterations = PBKDF2_HMAC_SHA256 password salt iterations 32"

definition ClientKey :: "bytes \<Rightarrow> bytes" where
  "ClientKey salted = HMAC_SHA256 salted (bytes_of_string ''Client Key'')"

definition StoredKey :: "bytes \<Rightarrow> bytes" where
  "StoredKey client = sha256 client"

definition ServerKey :: "bytes \<Rightarrow> bytes" where
  "ServerKey salted = HMAC_SHA256 salted (bytes_of_string ''Server Key'')"

subsection \<open>Reading a verifier string back\<close>

text \<open>Base64 decoding (RFC 4648): groups of four characters, padding only in the last.\<close>

definition b64_index :: "char \<Rightarrow> nat option" where
  "b64_index c = map_of (zip encodeStd [0..<64]) c"

definition b64_group :: "nat \<Rightarrow> nat \<Rightarrow> nat \<Rightarrow> nat \<Rightarrow> 32 word" where
  "b64_group i0 i1 i2 i3 =
     push_bit 18 (of_nat i0) OR push_bit 12 (of_nat i1) OR push_bit 6 (of_nat i2) OR of_nat i3"

fun base64_DecodeString :: "string \<Rightarrow> bytes option" where
  "base64_DecodeString [] = Some []"
| "base64_DecodeString (c0 # c1 # c2 # c3 # rest) =
     (case (b64_index c0, b64_index c1) of
        (Some i0, Some i1) \<Rightarrow>
          (if rest = [] \<and> c2 = CHR ''='' \<and> c3 = CHR ''=''
           then Some [ucast (drop_bit 16 (b64_group i0 i1 0 0))]
           else
             (case b64_index c2 of
                None \<Rightarrow> None
              | Some i2 \<Rightarrow>
                 (if rest = [] \<and> c3 = CHR ''=''
                  then (let v = b64_group i0 i1 i2 0
                        in Some [ucast (drop_bit 16 v), ucast (drop_bit 8 v)])
                  else
                    (case b64_index c3 of
                       None \<Rightarrow> None
                     | Some i3 \<Rightarrow>
                        (let v = b64_group i0 i1 i2 i3
                         in map_option
                              (\<lambda>bs. ucast (drop_bit 16 v) # ucast (drop_bit 8 v) # ucast v # bs)
                              (base64_DecodeString rest))))))
      | _ \<Rightarrow> None)"
| "base64_DecodeString _ = None"

text \<open>A positive decimal integer: digits only, no sign, no leading zero.\<close>

definition digit_value :: "char \<Rightarrow> nat option" where
  "digit_value c =
     (let n = of_char c :: nat in if 48 \<le> n \<and> n \<le> 57 then Some (n - 48) else None)"

fun parse_digits :: "nat \<Rightarrow> string \<Rightarrow> nat option" where
  "parse_digits acc [] = Some acc"
| "parse_digits acc (c # cs) =
     (case digit_value c of None \<Rightarrow> None | Some d \<Rightarrow> parse_digits (10 * acc + d) cs)"

definition parse_positive :: "string \<Rightarrow> int option" where
  "parse_positive s =
     (case s of
        [] \<Rightarrow> None
      | c # cs \<Rightarrow> if c = CHR ''0'' then None else map_option int (parse_digits 0 s))"

text \<open>Splitting at every occurrence of a delimiter.\<close>

fun split_on :: "char \<Rightarrow> string \<Rightarrow> string list" where
  "split_on d [] = [[]]"
| "split_on d (c # cs) =
     (if c = d then [] # split_on d cs
      else (case split_on d cs of p # ps \<Rightarrow> (c # p) # ps | [] \<Rightarrow> [[c]]))"

text \<open>
  The documented grammar
  \<^verbatim>\<open>SCRAM-SHA-256$<iterations>:<salt>$<storedkey>:<serverkey>\<close>: three parts between
  \<open>$\<close>, the second and the third of two fields each around a \<open>:\<close>.
\<close>

definition verifier_fields :: "string \<Rightarrow> (string \<times> string \<times> string \<times> string) option" where
  "verifier_fields s =
     (case split_on (CHR ''$'') s of
        [scheme, a, b] \<Rightarrow>
          (if scheme = ''SCRAM-SHA-256'' then
             (case (split_on (CHR '':'') a, split_on (CHR '':'') b) of
                ([iterations, salt], [storedkey, serverkey]) \<Rightarrow>
                  Some (iterations, salt, storedkey, serverkey)
              | _ \<Rightarrow> None)
           else None)
      | _ \<Rightarrow> None)"

definition parse_verifier :: "string \<Rightarrow> (int \<times> bytes \<times> bytes \<times> bytes) option" where
  "parse_verifier s =
     (case verifier_fields s of
        None \<Rightarrow> None
      | Some (iterations, salt, storedkey, serverkey) \<Rightarrow>
          (case (parse_positive iterations, base64_DecodeString salt,
                 base64_DecodeString storedkey, base64_DecodeString serverkey) of
             (Some n, Some st, Some sk, Some vk) \<Rightarrow> Some (n, st, sk, vk)
           | _ \<Rightarrow> None))"

text \<open>
  A valid verifier string: it parses, the salt decodes to 16 bytes and the two keys to
  32 bytes each.
\<close>

definition valid_VerifierString :: "string \<Rightarrow> bool" where
  "valid_VerifierString s =
     (case parse_verifier s of
        None \<Rightarrow> False
      | Some (n, st, sk, vk) \<Rightarrow> length st = 16 \<and> length sk = 32 \<and> length vk = 32)"

definition whitespace :: "char list" where
  "whitespace = [CHR '' '', CHR 0x09, CHR 0x0A, CHR 0x0B, CHR 0x0C, CHR 0x0D]"

subsection \<open>Names for the values of one derivation\<close>

text \<open>
  The salt that \<^verbatim>\<open>rand.Read\<close> hands to a derivation started in world \<open>w\<close>, and the two
  keys the code derives from it.
\<close>

definition salt_in :: "world \<Rightarrow> bytes" where
  "salt_in w = take saltLength (rand_pool w)"

definition storedKey_in :: "string \<Rightarrow> int \<Rightarrow> world \<Rightarrow> bytes" where
  "storedKey_in password iterations w =
     storedKey_of (clientKeyBytes_of (saltedPassword_of password (salt_in w) iterations))"

definition serverKey_in :: "string \<Rightarrow> int \<Rightarrow> world \<Rightarrow> bytes" where
  "serverKey_in password iterations w =
     serverKeyBytes_of (saltedPassword_of password (salt_in w) iterations)"

text \<open>A world for the examples: sixteen random bytes are available, nothing else.\<close>

definition example_world :: world where
  "example_world =
     \<lparr>stdin_data = [], stdin_end = io_EOF, tty_input = [], tty_err = None,
      rand_pool = [1, 2, 3, 4, 5, 6, 7, 8, 9, 10, 11, 12, 13, 14, 15, 16],
      rand_err = Error ''unexpected EOF'', calls = [], stdout = [], stderr = [],
      args0 = ''scram-sha-256''\<rparr>"

section \<open>Properties of the library primitives\<close>

subsection \<open>SHA-256: the constants and a test vector\<close>

text \<open>
  Every round constant is what the standard says it is, and the digest of \<open>abc\<close> is the
  one the standard lists.
\<close>

lemma sha256_K_cube_roots: "list_all cube_root_bits sha256_K_table"
  unfolding sha256_K_table_def
  by (simp add: cube_root_bits_def cube_root_floor_def Let_def)

lemma sha256_abc:
  "sha256 (bytes_of_string ''abc'') =
     [0xba, 0x78, 0x16, 0xbf, 0x8f, 0x01, 0xcf, 0xea, 0x41, 0x41, 0x40, 0xde,
      0x5d, 0xae, 0x22, 0x23, 0xb0, 0x03, 0x61, 0xa3, 0x96, 0x17, 0x7a, 0x9c,
      0xb4, 0x10, 0xff, 0x61, 0xf2, 0x00, 0x15, 0xad]"
  by code_simp

text \<open>
  PBKDF2-HMAC-SHA-256 of the password \<open>password\<close> with the salt \<open>salt\<close>, one
  iteration, 32 bytes: the published test vector, through the HMAC object and the loop.
\<close>

lemma pbkdf2_test_vector:
  "pbkdf2_Key (bytes_of_string ''password'') (bytes_of_string ''salt'') 1 32 sha256_New =
     [0x12, 0x0f, 0xb6, 0xcf, 0xfc, 0xf8, 0xb3, 0x2c, 0x43, 0xe7, 0x22, 0x52,
      0x56, 0xc4, 0xf8, 0x37, 0xa8, 0x65, 0x48, 0xc9, 0x2c, 0xcc, 0x35, 0x48,
      0x08, 0x05, 0x98, 0x7c, 0xb7, 0x0b, 0xe1, 0x7b]"
  by code_simp

subsection \<open>Digest lengths\<close>

lemma length_be32_bytes: "length (be32_bytes w) = 4"
  by (simp add: be32_bytes_def)

lemma length_sha256_digest: "length (sha256_digest st) = 32"
  by (induction st rule: sha256_digest.induct) (simp add: length_be32_bytes)

lemma length_sha256: "length (sha256 m) = 32"
  by (simp add: sha256_def length_sha256_digest)

lemma length_HMAC_SHA256: "length (HMAC_SHA256 K m) = 32"
  by (simp add: HMAC_SHA256_def Let_def length_sha256)

subsection \<open>The HMAC object computes RFC 2104\<close>

lemma xor_bytes_replicate:
  "length xs = n \<Longrightarrow> xor_bytes xs (replicate n c) = map (\<lambda>b. b XOR c) xs"
  by (induction xs arbitrary: n) (auto simp: xor_bytes_def)

lemma hmac_key_length:
  "length ((if length K > 64 then sha256 K else K)
           @ replicate (64 - length (if length K > 64 then sha256 K else K)) 0) = 64"
  by (simp add: length_sha256)

lemma hmac_New_Write_Sum:
  "hmac_Sum (hmac_Write (hmac_New sha256_New K) m) b = b @ HMAC_SHA256 K m"
  unfolding hmac_Sum_def hmac_Write_def hmac_New_def HMAC_SHA256_def Let_def
  using hmac_key_length [of K]
  by (simp add: sha256_New_def xor_bytes_replicate)

lemma hmac_Reset_Write_Sum:
  "hmac_Sum (hmac_Write (hmac_Reset (hmac_New sha256_New K)) m) b = b @ HMAC_SHA256 K m"
  unfolding hmac_Sum_def hmac_Write_def hmac_Reset_def hmac_New_def HMAC_SHA256_def Let_def
  using hmac_key_length [of K]
  by (simp add: sha256_New_def xor_bytes_replicate)

lemma hmac_Reset_Write_Write_Sum:
  "hmac_Sum (hmac_Write (hmac_Write (hmac_Reset (hmac_New sha256_New K)) m1) m2) b
     = b @ HMAC_SHA256 K (m1 @ m2)"
  unfolding hmac_Sum_def hmac_Write_def hmac_Reset_def hmac_New_def HMAC_SHA256_def Let_def
  using hmac_key_length [of K]
  by (simp add: sha256_New_def xor_bytes_replicate)

subsection \<open>The PBKDF2 loop computes RFC 8018\<close>

text \<open>
  The loop invariant: entering round \<open>n\<close>, \<open>U\<close> is \<open>U\<^sub>n\<^sub>-\<^sub>1\<close>; the rounds that remain
  XOR \<open>U\<^sub>n, \<dots>, U\<^sub>i\<^sub>t\<^sub>e\<^sub>r\<close> into \<open>T\<close>.
\<close>

lemma pbkdf2_rounds_fold:
  "1 \<le> n \<Longrightarrow> U = (HMAC_SHA256 P ^^ (nat n - 1)) seed \<Longrightarrow>
   pbkdf2_rounds (hmac_New sha256_New P) n iter U T
     = foldl xor_bytes T (map (\<lambda>j. (HMAC_SHA256 P ^^ j) seed) [nat n..<nat iter + 1])"
proof (induction "hmac_New sha256_New P" n iter U T rule: pbkdf2_rounds.induct)
  case (1 n iter U T)
  show ?case
  proof (cases "n \<le> iter")
    case True
    let ?U' = "hmac_Sum (hmac_Write (hmac_Reset (hmac_New sha256_New P)) U) []"
    have U': "?U' = (HMAC_SHA256 P ^^ nat n) seed"
    proof -
      have "nat n = Suc (nat n - 1)" using "1.prems"(1) by simp
      then have "(HMAC_SHA256 P ^^ nat n) seed
                   = HMAC_SHA256 P ((HMAC_SHA256 P ^^ (nat n - 1)) seed)"
        by (metis funpow.simps(2) o_apply)
      then show ?thesis using "1.prems"(2) by (simp add: hmac_Reset_Write_Sum)
    qed
    have n1: "nat (n + 1) = Suc (nat n)" using "1.prems"(1) by simp
    have IH: "pbkdf2_rounds (hmac_New sha256_New P) (n + 1) iter ?U' (xor_bytes T ?U')
                = foldl xor_bytes (xor_bytes T ?U')
                    (map (\<lambda>j. (HMAC_SHA256 P ^^ j) seed) [nat (n + 1)..<nat iter + 1])"
      using "1.hyps" [OF True refl] "1.prems"(1) U' n1 by simp
    have lt: "nat n < nat iter + 1" using True "1.prems"(1) by simp
    have "[nat n..<nat iter + 1] = nat n # [nat (n + 1)..<nat iter + 1]"
      using upt_conv_Cons [OF lt] n1 by simp
    then show ?thesis
      using True IH U' by (subst pbkdf2_rounds.simps) (simp add: Let_def)
  next
    case False
    then have "[nat n..<nat iter + 1] = []" using "1.prems"(1) by simp
    then show ?thesis using False by (subst pbkdf2_rounds.simps) simp
  qed
qed

lemma pbkdf2_block_F:
  assumes "1 \<le> iter"
  shows "pbkdf2_block (hmac_New sha256_New P) S iter i = PBKDF2_F P S (nat iter) i"
proof -
  let ?seed = "S @ be32_bytes (of_nat i)"
  have T: "hmac_Sum (hmac_Write (hmac_Write (hmac_Reset (hmac_New sha256_New P)) S)
             (be32_bytes (of_nat i))) [] = (HMAC_SHA256 P ^^ 1) ?seed"
    by (simp add: hmac_Reset_Write_Write_Sum)
  have "pbkdf2_rounds (hmac_New sha256_New P) 2 iter ((HMAC_SHA256 P ^^ 1) ?seed)
          ((HMAC_SHA256 P ^^ 1) ?seed)
        = foldl xor_bytes ((HMAC_SHA256 P ^^ 1) ?seed)
            (map (\<lambda>j. (HMAC_SHA256 P ^^ j) ?seed) [nat 2..<nat iter + 1])"
    by (rule pbkdf2_rounds_fold) simp_all
  then show ?thesis
    unfolding pbkdf2_block_def Let_def T PBKDF2_F_def PBKDF2_U_def by simp
qed

lemma pbkdf2_Key_PBKDF2:
  assumes "1 \<le> iter"
  shows "pbkdf2_Key P S iter dkLen sha256_New = PBKDF2_HMAC_SHA256 P S (nat iter) dkLen"
proof -
  have blocks: "map (pbkdf2_block (hmac_New sha256_New P) S iter) xs
                  = map (PBKDF2_F P S (nat iter)) xs" for xs
    using assms by (simp add: pbkdf2_block_F)
  have size: "hash_size sha256_New = 32"
    by (simp add: sha256_New_def)
  show ?thesis
    unfolding pbkdf2_Key_def PBKDF2_HMAC_SHA256_def Let_def blocks size
    by (simp add: add.commute)
qed

subsection \<open>Base64\<close>

lemma mask6: "(0x3F :: 32 word) = mask 6"
  by (simp add: mask_eq_exp_minus_1)

lemma sextet_less: "unat ((v :: 32 word) AND 0x3F) < 64"
proof -
  have "unat (v AND 0x3F) \<le> unat (0x3F :: 32 word)"
    by (rule word_and_le1 [THEN word_le_nat_alt [THEN iffD1]])
  then show ?thesis by simp
qed

lemma length_encodeStd: "length encodeStd = 64"
  by (simp add: encodeStd_def)

lemma distinct_encodeStd: "distinct encodeStd"
  by (simp add: encodeStd_def)

lemma b64_index_nth: "i < 64 \<Longrightarrow> b64_index (encodeStd ! i) = Some i"
  unfolding b64_index_def
  using map_of_zip_nth [of encodeStd "[0..<64]" i]
  by (simp add: length_encodeStd distinct_encodeStd)

lemma b64_index_char: "b64_index (b64_char v) = Some (unat (v AND 0x3F))"
  by (simp add: b64_char_def b64_index_nth sextet_less)

lemma b64_char_in_alphabet: "b64_char v \<in> set encodeStd"
  by (simp add: b64_char_def sextet_less length_encodeStd)

lemma regroup:
  "b64_group (unat (drop_bit 18 v AND 0x3F)) (unat (drop_bit 12 v AND 0x3F))
     (unat (drop_bit 6 v AND 0x3F)) (unat (v AND 0x3F)) = take_bit 24 v"
proof (rule bit_word_eqI)
  fix n :: nat
  assume "n < LENGTH(32)"
  consider "n < 6" | "6 \<le> n" "n < 12" | "12 \<le> n" "n < 18" | "18 \<le> n"
    by linarith
  then show "bit (b64_group (unat (drop_bit 18 v AND 0x3F)) (unat (drop_bit 12 v AND 0x3F))
                 (unat (drop_bit 6 v AND 0x3F)) (unat (v AND 0x3F))) n
             \<longleftrightarrow> bit (take_bit 24 v) n"
    unfolding b64_group_def mask6
    by cases (auto simp: bit_simps take_bit_eq_mask [symmetric])
qed

lemma regroup3:
  "b64_group (unat (drop_bit 18 v AND 0x3F)) (unat (drop_bit 12 v AND 0x3F))
     (unat (drop_bit 6 v AND 0x3F)) 0 = take_bit 24 v AND NOT (mask 6)"
proof (rule bit_word_eqI)
  fix n :: nat
  assume "n < LENGTH(32)"
  consider "n < 6" | "6 \<le> n" "n < 12" | "12 \<le> n" "n < 18" | "18 \<le> n"
    by linarith
  then show "bit (b64_group (unat (drop_bit 18 v AND 0x3F)) (unat (drop_bit 12 v AND 0x3F))
                 (unat (drop_bit 6 v AND 0x3F)) 0) n
             \<longleftrightarrow> bit (take_bit 24 v AND NOT (mask 6)) n"
    unfolding b64_group_def mask6
    by cases (auto simp: bit_simps take_bit_eq_mask [symmetric])
qed

lemma regroup2:
  "b64_group (unat (drop_bit 18 v AND 0x3F)) (unat (drop_bit 12 v AND 0x3F)) 0 0
     = take_bit 24 v AND NOT (mask 12)"
proof (rule bit_word_eqI)
  fix n :: nat
  assume "n < LENGTH(32)"
  consider "n < 12" | "12 \<le> n" "n < 18" | "18 \<le> n"
    by linarith
  then show "bit (b64_group (unat (drop_bit 18 v AND 0x3F)) (unat (drop_bit 12 v AND 0x3F)) 0 0) n
             \<longleftrightarrow> bit (take_bit 24 v AND NOT (mask 12)) n"
    unfolding b64_group_def mask6
    by cases (auto simp: bit_simps take_bit_eq_mask [symmetric])
qed

lemma group3_bytes:
  fixes a b c :: byte
  defines "val \<equiv> push_bit 16 (ucast a) OR push_bit 8 (ucast b) OR ucast c :: 32 word"
  shows "ucast (drop_bit 16 (take_bit 24 val)) = a"
    and "ucast (drop_bit 8 (take_bit 24 val)) = b"
    and "ucast (take_bit 24 val) = c"
  unfolding val_def
  by (rule bit_word_eqI; auto simp: bit_simps dest: bit_imp_le_length)+

lemma group2_bytes:
  fixes a b :: byte
  defines "val \<equiv> push_bit 16 (ucast a) OR push_bit 8 (ucast b) :: 32 word"
  shows "ucast (drop_bit 16 (take_bit 24 val AND NOT (mask 6))) = a"
    and "ucast (drop_bit 8 (take_bit 24 val AND NOT (mask 6))) = b"
  unfolding val_def
  by (rule bit_word_eqI; auto simp: bit_simps dest: bit_imp_le_length)+

lemma group1_bytes:
  fixes a :: byte
  defines "val \<equiv> push_bit 16 (ucast a) :: 32 word"
  shows "ucast (drop_bit 16 (take_bit 24 val AND NOT (mask 12))) = a"
  unfolding val_def
  by (rule bit_word_eqI; auto simp: bit_simps dest: bit_imp_le_length)+

lemma pad_not_index: "b64_index (CHR ''='') = None"
  by (simp add: b64_index_def encodeStd_def)

lemma b64_char_not_pad: "b64_char v \<noteq> CHR ''=''"
  using b64_index_char [of v] pad_not_index by auto

lemma decode_enc1:
  "base64_DecodeString [b64_char (drop_bit 18 v), b64_char (drop_bit 12 v), CHR ''='', CHR ''='']
     = Some [ucast (drop_bit 16 (take_bit 24 v AND NOT (mask 12)))]"
  by (simp add: b64_index_char regroup2)

lemma decode_enc2:
  "base64_DecodeString
     [b64_char (drop_bit 18 v), b64_char (drop_bit 12 v), b64_char (drop_bit 6 v), CHR ''='']
     = Some [ucast (drop_bit 16 (take_bit 24 v AND NOT (mask 6))),
             ucast (drop_bit 8 (take_bit 24 v AND NOT (mask 6)))]"
  by (simp add: b64_index_char b64_char_not_pad regroup3 Let_def)

lemma decode_enc3:
  "base64_DecodeString
     (b64_char (drop_bit 18 v) # b64_char (drop_bit 12 v) # b64_char (drop_bit 6 v)
        # b64_char v # rest)
     = map_option
         (\<lambda>bs. ucast (drop_bit 16 (take_bit 24 v)) # ucast (drop_bit 8 (take_bit 24 v))
                 # ucast (take_bit 24 v) # bs)
         (base64_DecodeString rest)"
  by (simp add: b64_index_char b64_char_not_pad regroup Let_def)

lemma base64_roundtrip: "base64_DecodeString (base64_EncodeToString xs) = Some xs"
proof (induction xs rule: base64_EncodeToString.induct)
  case 1
  then show ?case by simp
next
  case (2 a)
  show ?case
    unfolding base64_EncodeToString.simps Let_def decode_enc1 group1_bytes ..
next
  case (3 a b)
  show ?case
    unfolding base64_EncodeToString.simps Let_def decode_enc2 group2_bytes ..
next
  case (4 a b c rest)
  show ?case
    unfolding base64_EncodeToString.simps Let_def append_Cons append_Nil
      decode_enc3 "4.IH" group3_bytes
    by simp
qed

lemma length_base64: "length (base64_EncodeToString xs) = 4 * ((length xs + 2) div 3)"
proof (induction xs rule: base64_EncodeToString.induct)
  case (4 a b c rest)
  have "(length (a # b # c # rest) + 2) div 3 = Suc ((length rest + 2) div 3)"
    by simp
  then show ?case using 4 by (simp add: Let_def)
qed (simp_all add: Let_def)

lemma set_base64: "set (base64_EncodeToString xs) \<subseteq> insert (CHR ''='') (set encodeStd)"
  by (induction xs rule: base64_EncodeToString.induct)
     (auto simp: Let_def b64_char_in_alphabet)

lemma base64_inj: "base64_EncodeToString xs = base64_EncodeToString ys \<Longrightarrow> xs = ys"
  by (metis base64_roundtrip option.inject)

subsection \<open>Decimal numerals, splitting and formatting\<close>

lemma digit_cases:
  "d < 10 \<Longrightarrow> d = 0 \<or> d = 1 \<or> d = 2 \<or> d = 3 \<or> d = 4 \<or> d = 5 \<or> d = 6 \<or> d = 7 \<or> d = 8 \<or> d = (9::nat)"
  by arith

lemma digit_value_digit_char: "d < 10 \<Longrightarrow> digit_value (digit_char d) = Some d"
  using digit_cases [of d] by (auto simp: digit_value_def digit_char_def Let_def)

lemma parse_digits_append:
  "parse_digits acc (xs @ ys)
     = (case parse_digits acc xs of None \<Rightarrow> None | Some a \<Rightarrow> parse_digits a ys)"
  by (induction xs arbitrary: acc) (auto split: option.splits)

lemma parse_digits_decimal: "parse_digits 0 (decimal n) = Some n"
proof (induction n rule: decimal.induct)
  case (1 n)
  show ?case
  proof (cases "n < 10")
    case True
    then show ?thesis by (subst decimal.simps) (simp add: digit_value_digit_char)
  next
    case False
    then have "parse_digits 0 (decimal (n div 10)) = Some (n div 10)"
      using 1 by simp
    then show ?thesis
      using False
      by (subst decimal.simps) (simp add: parse_digits_append digit_value_digit_char)
  qed
qed

lemma decimal_not_Nil: "decimal n \<noteq> []"
  by (subst decimal.simps) simp

lemma digit_char_zero: "d < 10 \<Longrightarrow> digit_char d = CHR ''0'' \<longleftrightarrow> d = 0"
  using digit_cases [of d] by (auto simp: digit_char_def)

lemma hd_decimal: "0 < n \<Longrightarrow> hd (decimal n) \<noteq> CHR ''0''"
proof (induction n rule: decimal.induct)
  case (1 n)
  show ?case
  proof (cases "n < 10")
    case True
    then show ?thesis using "1.prems" by (subst decimal.simps) (simp add: digit_char_zero)
  next
    case False
    then have "hd (decimal (n div 10)) \<noteq> CHR ''0''"
      using 1 by simp
    then show ?thesis
      using False by (subst decimal.simps) (simp add: decimal_not_Nil)
  qed
qed

lemma digit_char_in: "d < 10 \<Longrightarrow> digit_char d \<in> set ''0123456789''"
  using digit_cases [of d] by (auto simp: digit_char_def)

lemma set_decimal: "set (decimal n) \<subseteq> set ''0123456789''"
proof (induction n rule: decimal.induct)
  case (1 n)
  show ?case
  proof (cases "n < 10")
    case True
    then show ?thesis using digit_char_in [of n] by (subst decimal.simps) simp
  next
    case False
    then have "set (decimal (n div 10)) \<subseteq> set ''0123456789''"
      using 1 by simp
    moreover have "digit_char (n mod 10) \<in> set ''0123456789''"
      by (rule digit_char_in) simp
    ultimately show ?thesis
      using False by (subst decimal.simps) simp
  qed
qed

lemma decimal_bounds:
  "0 < n \<Longrightarrow> 10 ^ (length (decimal n) - 1) \<le> n \<and> n < 10 ^ length (decimal n)"
proof (induction n rule: decimal.induct)
  case (1 n)
  show ?case
  proof (cases "n < 10")
    case True
    then show ?thesis using "1.prems" by (subst (1 2) decimal.simps) simp
  next
    case False
    obtain m where m: "length (decimal (n div 10)) = Suc m"
      using decimal_not_Nil [of "n div 10"] by (cases "decimal (n div 10)") auto
    have IH: "10 ^ m \<le> n div 10 \<and> n div 10 < 10 ^ Suc m"
      using 1 False m by simp
    have len: "length (decimal n) = Suc (Suc m)"
      using False m by (subst decimal.simps) simp
    have lo: "(10::nat) ^ Suc m \<le> n"
    proof -
      have "10 * 10 ^ m \<le> 10 * (n div 10)" using IH by simp
      also have "\<dots> \<le> n" by simp
      finally show ?thesis by simp
    qed
    have hi: "n < (10::nat) ^ Suc (Suc m)"
    proof -
      have "n div 10 < 10 ^ Suc m" using IH by simp
      then have "n < 10 * 10 ^ Suc m" by (simp add: div_less_iff_less_mult)
      then show ?thesis by simp
    qed
    show ?thesis using lo hi len by simp
  qed
qed

lemma parse_positive_fmt_d: "1 \<le> i \<Longrightarrow> parse_positive (fmt_d i) = Some i"
proof -
  assume i: "1 \<le> i"
  then have pos: "0 < nat i" by simp
  obtain c cs where d: "decimal (nat i) = c # cs"
    using decimal_not_Nil [of "nat i"] by (cases "decimal (nat i)") auto
  have "c \<noteq> CHR ''0''" using hd_decimal [OF pos] d by simp
  then show ?thesis
    using i d parse_digits_decimal [of "nat i"]
    by (simp add: parse_positive_def fmt_d_def)
qed

lemma split_on_none: "d \<notin> set a \<Longrightarrow> split_on d a = [a]"
  by (induction a) auto

lemma split_on_first: "d \<notin> set a \<Longrightarrow> split_on d (a @ d # rest) = a # split_on d rest"
  by (induction a) auto

lemma Sprintf_verifier:
  "Sprintf ''SCRAM-SHA-256$%d:%s$%s:%s'' [IntArg i, StrArg a, StrArg b, StrArg c]
     = ''SCRAM-SHA-256$'' @ fmt_d i @ '':'' @ a @ ''$'' @ b @ '':'' @ c"
  by simp

section \<open>Properties of the program\<close>

subsection \<open>The three outcomes of a derivation\<close>

lemma rand_Read_ok:
  "length b \<le> length (rand_pool w) \<Longrightarrow>
   rand_Read b w = ((take (length b) (rand_pool w), None),
                    called Rand_Read (w\<lparr>rand_pool := drop (length b) (rand_pool w)\<rparr>))"
  by (simp add: rand_Read_def Let_def)

lemma rand_Read_fail:
  "length (rand_pool w) < length b \<Longrightarrow>
   rand_Read b w = ((rand_pool w @ drop (length (rand_pool w)) b, Some (rand_err w)),
                    called Rand_Read (w\<lparr>rand_pool := []\<rparr>))"
  by (simp add: rand_Read_def Let_def)

lemma generate_below_one:
  "iterations < 1 \<Longrightarrow>
   generateSCRAMSHA256 password iterations w
     = (([], Some (Error ''iterations must be at least 1'')), w)"
  by (simp add: generateSCRAMSHA256_def)

lemma generate_no_salt:
  "1 \<le> iterations \<Longrightarrow> length (rand_pool w) < 16 \<Longrightarrow>
   generateSCRAMSHA256 password iterations w
     = (([], Some (Wrapped ''failed to generate salt: '' (rand_err w))),
        called Rand_Read (w\<lparr>rand_pool := []\<rparr>))"
  by (simp add: generateSCRAMSHA256_def rand_Read_fail saltLength_def)

lemma generate_ok:
  "1 \<le> iterations \<Longrightarrow> 16 \<le> length (rand_pool w) \<Longrightarrow>
   fst (generateSCRAMSHA256 password iterations w)
     = (''SCRAM-SHA-256$'' @ fmt_d iterations @ '':''
          @ base64_EncodeToString (salt_in w) @ ''$''
          @ base64_EncodeToString (storedKey_in password iterations w) @ '':''
          @ base64_EncodeToString (serverKey_in password iterations w), None)"
  by (simp add: generateSCRAMSHA256_def rand_Read_ok saltLength_def Let_def
      salt_in_def storedKey_in_def serverKey_in_def)

lemma generate_ok_world:
  "1 \<le> iterations \<Longrightarrow> 16 \<le> length (rand_pool w) \<Longrightarrow>
   snd (generateSCRAMSHA256 password iterations w)
     = w\<lparr>rand_pool := drop 16 (rand_pool w),
          calls := calls w @ [Rand_Read, Pbkdf2_Key, Hmac_New, Hmac_Write, Hmac_Sum,
                              Sha256_Sum256, Hmac_New, Hmac_Write, Hmac_Sum]\<rparr>"
  by (simp add: generateSCRAMSHA256_def rand_Read_ok saltLength_def Let_def called_def)

lemma generate_success_iff:
  "snd (fst (generateSCRAMSHA256 password iterations w)) = None
     \<longleftrightarrow> 1 \<le> iterations \<and> 16 \<le> length (rand_pool w)"
proof (cases "1 \<le> iterations")
  case True
  then show ?thesis
    using generate_ok [of iterations w password] generate_no_salt [of iterations w password]
    by (cases "16 \<le> length (rand_pool w)") simp_all
next
  case False
  then show ?thesis by (simp add: generate_below_one)
qed

lemma length_salt_in: "16 \<le> length (rand_pool w) \<Longrightarrow> length (salt_in w) = 16"
  by (simp add: salt_in_def saltLength_def)

lemma clientKeyBytes_of_ClientKey: "clientKeyBytes_of sp = ClientKey sp"
  by (simp add: clientKeyBytes_of_def ClientKey_def hmac_New_Write_Sum)

lemma serverKeyBytes_of_ServerKey: "serverKeyBytes_of sp = ServerKey sp"
  by (simp add: serverKeyBytes_of_def ServerKey_def hmac_New_Write_Sum)

lemma storedKey_of_StoredKey: "storedKey_of ck = StoredKey ck"
  by (simp add: storedKey_of_def StoredKey_def sha256_Sum256_def)

lemma saltedPassword_of_SaltedPassword:
  "1 \<le> iterations \<Longrightarrow>
   saltedPassword_of password salt iterations
     = SaltedPassword (bytes_of_string password) salt (nat iterations)"
  by (simp add: saltedPassword_of_def SaltedPassword_def keyLength_def pbkdf2_Key_PBKDF2)

lemma length_storedKey_in: "length (storedKey_in password iterations w) = 32"
  by (simp add: storedKey_in_def storedKey_of_StoredKey StoredKey_def length_sha256)

lemma length_serverKey_in: "length (serverKey_in password iterations w) = 32"
  by (simp add: serverKey_in_def serverKeyBytes_of_ServerKey ServerKey_def length_HMAC_SHA256)

subsection \<open>The verifier string and its grammar\<close>

lemma base64_no_dollar: "CHR ''$'' \<notin> set (base64_EncodeToString xs)"
  using set_base64 [of xs] by (auto simp: encodeStd_def)

lemma base64_no_colon: "CHR '':'' \<notin> set (base64_EncodeToString xs)"
  using set_base64 [of xs] by (auto simp: encodeStd_def)

lemma base64_no_whitespace: "set (base64_EncodeToString xs) \<inter> set whitespace = {}"
  using set_base64 [of xs] by (auto simp: encodeStd_def whitespace_def)

lemma decimal_no_dollar: "CHR ''$'' \<notin> set (decimal n)"
proof
  assume "CHR ''$'' \<in> set (decimal n)"
  then have "CHR ''$'' \<in> set ''0123456789''" using set_decimal [of n] by blast
  then show False by simp
qed

lemma decimal_no_colon: "CHR '':'' \<notin> set (decimal n)"
proof
  assume "CHR '':'' \<in> set (decimal n)"
  then have "CHR '':'' \<in> set ''0123456789''" using set_decimal [of n] by blast
  then show False by simp
qed

lemma decimal_no_whitespace: "set (decimal n) \<inter> set whitespace = {}"
proof -
  have "set ''0123456789'' \<inter> set whitespace = {}"
    by (simp add: whitespace_def)
  then show ?thesis using set_decimal [of n] by blast
qed

lemma fmt_d_positive: "1 \<le> i \<Longrightarrow> fmt_d i = decimal (nat i)"
  by (simp add: fmt_d_def)

lemma verifier_fields_format:
  assumes "CHR ''$'' \<notin> set D" "CHR '':'' \<notin> set D"
      and "CHR ''$'' \<notin> set A" "CHR '':'' \<notin> set A"
      and "CHR ''$'' \<notin> set B" "CHR '':'' \<notin> set B"
      and "CHR ''$'' \<notin> set C" "CHR '':'' \<notin> set C"
  shows "verifier_fields (''SCRAM-SHA-256$'' @ D @ '':'' @ A @ ''$'' @ B @ '':'' @ C)
           = Some (D, A, B, C)"
proof -
  have s3: "split_on (CHR ''$'') (B @ '':'' @ C) = [B @ '':'' @ C]"
    using assms by (intro split_on_none) simp
  have s2: "split_on (CHR ''$'') ((D @ '':'' @ A) @ CHR ''$'' # (B @ '':'' @ C))
              = [D @ '':'' @ A, B @ '':'' @ C]"
    using assms s3 by (subst split_on_first) simp_all
  have s1: "split_on (CHR ''$'') (''SCRAM-SHA-256'' @ CHR ''$'' #
              ((D @ '':'' @ A) @ CHR ''$'' # (B @ '':'' @ C)))
              = [''SCRAM-SHA-256'', D @ '':'' @ A, B @ '':'' @ C]"
    using s2 by (subst split_on_first) simp_all
  have c1: "split_on (CHR '':'') (D @ CHR '':'' # A) = [D, A]"
    using assms by (subst split_on_first) (simp_all add: split_on_none)
  have c2: "split_on (CHR '':'') (B @ CHR '':'' # C) = [B, C]"
    using assms by (subst split_on_first) (simp_all add: split_on_none)
  have "''SCRAM-SHA-256$'' @ D @ '':'' @ A @ ''$'' @ B @ '':'' @ C
          = ''SCRAM-SHA-256'' @ CHR ''$'' # ((D @ '':'' @ A) @ CHR ''$'' # (B @ '':'' @ C))"
    by simp
  then show ?thesis
    unfolding verifier_fields_def using s1 c1 c2 by simp
qed

lemma generate_fields:
  assumes "1 \<le> iterations" and "16 \<le> length (rand_pool w)"
  shows "verifier_fields (fst (fst (generateSCRAMSHA256 password iterations w)))
           = Some (decimal (nat iterations), base64_EncodeToString (salt_in w),
                   base64_EncodeToString (storedKey_in password iterations w),
                   base64_EncodeToString (serverKey_in password iterations w))"
  unfolding generate_ok [OF assms] fst_conv fmt_d_positive [OF assms(1)]
  by (rule verifier_fields_format)
     (rule decimal_no_dollar decimal_no_colon base64_no_dollar base64_no_colon)+

lemma generate_parse:
  assumes "1 \<le> iterations" and "16 \<le> length (rand_pool w)"
  shows "parse_verifier (fst (fst (generateSCRAMSHA256 password iterations w)))
           = Some (iterations, salt_in w, storedKey_in password iterations w,
                   serverKey_in password iterations w)"
  unfolding parse_verifier_def generate_fields [OF assms]
  using parse_positive_fmt_d [OF assms(1)] fmt_d_positive [OF assms(1)]
  by (simp add: base64_roundtrip)

lemma generate_valid:
  assumes "1 \<le> iterations" and "16 \<le> length (rand_pool w)"
  shows "valid_VerifierString (fst (fst (generateSCRAMSHA256 password iterations w)))"
  unfolding valid_VerifierString_def generate_parse [OF assms]
  by (simp add: length_salt_in [OF assms(2)] length_storedKey_in length_serverKey_in)

lemma generate_no_whitespace:
  assumes "1 \<le> iterations" and "16 \<le> length (rand_pool w)"
  shows "set (fst (fst (generateSCRAMSHA256 password iterations w))) \<inter> set whitespace = {}"
proof -
  have "set ''SCRAM-SHA-256$'' \<inter> set whitespace = {}"
       "set '':'' \<inter> set whitespace = {}" "set ''$'' \<inter> set whitespace = {}"
    by (simp_all add: whitespace_def)
  then show ?thesis
    unfolding generate_ok [OF assms] fst_conv fmt_d_positive [OF assms(1)] set_append
    using decimal_no_whitespace base64_no_whitespace
    by (simp add: Int_Un_distrib2)
qed

subsection \<open>Reading and validating the password\<close>

lemma TrimRight_split:
  "\<exists>t. s = strings_TrimRight s cutset @ t \<and> set t \<subseteq> set cutset"
proof -
  let ?P = "\<lambda>c. c \<in> set cutset"
  have "rev (dropWhile ?P (rev s)) @ rev (takeWhile ?P (rev s))
          = rev (takeWhile ?P (rev s) @ dropWhile ?P (rev s))"
    by (simp only: rev_append)
  also have "\<dots> = s"
    by (simp only: takeWhile_dropWhile_id rev_rev_ident)
  finally have "s = strings_TrimRight s cutset @ rev (takeWhile ?P (rev s))"
    by (simp add: strings_TrimRight_def)
  moreover have "set (rev (takeWhile ?P (rev s))) \<subseteq> set cutset"
    using set_takeWhileD [of _ ?P "rev s"] by auto
  ultimately show ?thesis by blast
qed

lemma TrimRight_last:
  "strings_TrimRight s cutset = [] \<or> last (strings_TrimRight s cutset) \<notin> set cutset"
proof (cases "dropWhile (\<lambda>c. c \<in> set cutset) (rev s) = []")
  case True
  then show ?thesis by (simp add: strings_TrimRight_def)
next
  case False
  then have "hd (dropWhile (\<lambda>c. c \<in> set cutset) (rev s)) \<notin> set cutset"
    using hd_dropWhile [of "\<lambda>c. c \<in> set cutset" "rev s"] by simp
  then show ?thesis using False by (simp add: strings_TrimRight_def last_rev)
qed

lemma readPasswordFromStdin_line:
  assumes "stdin_end w = io_EOF \<or> CHR 0x0A \<in> set (stdin_data w)"
  shows "fst (readPasswordFromStdin w)
           = (strings_TrimRight (fst (fst (ReadString (CHR 0x0A) w))) [CHR 0x0D, CHR 0x0A], None)"
  using assms by (auto simp: readPasswordFromStdin_def ReadString_def Let_def)

lemma readPasswordFromStdin_world:
  "calls (snd (readPasswordFromStdin w)) = calls w
   \<and> rand_pool (snd (readPasswordFromStdin w)) = rand_pool w
   \<and> rand_err (snd (readPasswordFromStdin w)) = rand_err w"
  by (auto simp: readPasswordFromStdin_def ReadString_def Let_def split: option.splits)

lemma promptPassword_world:
  "calls (snd (promptPassword w)) = calls w
   \<and> rand_pool (snd (promptPassword w)) = rand_pool w
   \<and> rand_err (snd (promptPassword w)) = rand_err w"
  by (auto simp: promptPassword_def term_ReadPassword_def Let_def print_out_def Println_def
      split: option.splits)

lemma main_invalid_password:
  assumes "\<not> ShowHelp config"
      and "(if UseStdin config then readPasswordFromStdin w else promptPassword w)
             = ((password, None), w1)"
      and "validatePassword password = Some e"
  shows "main config w = (1, Fprintf_Stderr (''Invalid password: %v'' @ [CHR 0x0A]) [ErrArg e] w1)"
  using assms by (simp add: main_def)

lemma Fprintf_Stderr_world:
  "calls (Fprintf_Stderr f args w) = calls w \<and> rand_pool (Fprintf_Stderr f args w) = rand_pool w"
  by (simp add: Fprintf_Stderr_def print_err_def)

lemma generate_nonempty:
  "1 \<le> iterations \<Longrightarrow> 16 \<le> length (rand_pool w) \<Longrightarrow>
   fst (fst (generateSCRAMSHA256 password iterations w)) \<noteq> []"
  by (simp add: generate_ok)

lemma invalid_utf8_example: "\<not> utf8_ValidString [CHR 0xFF]"
  by (simp add: utf8_ValidString_def bytes_of_string_def)

subsection \<open>Two derivations in a row\<close>

lemma generate_eq_iff_salt:
  assumes "1 \<le> iterations" and "16 \<le> length (rand_pool w)" and "16 \<le> length (rand_pool w')"
  shows "fst (generateSCRAMSHA256 password iterations w)
           = fst (generateSCRAMSHA256 password iterations w')
         \<longleftrightarrow> salt_in w = salt_in w'"
proof
  assume "fst (generateSCRAMSHA256 password iterations w)
            = fst (generateSCRAMSHA256 password iterations w')"
  then have "parse_verifier (fst (fst (generateSCRAMSHA256 password iterations w)))
               = parse_verifier (fst (fst (generateSCRAMSHA256 password iterations w')))"
    by simp
  then show "salt_in w = salt_in w'"
    unfolding generate_parse [OF assms(1,2)] generate_parse [OF assms(1,3)] by simp
next
  assume "salt_in w = salt_in w'"
  then show "fst (generateSCRAMSHA256 password iterations w)
               = fst (generateSCRAMSHA256 password iterations w')"
    unfolding generate_ok [OF assms(1,2)] generate_ok [OF assms(1,3)]
    by (simp add: storedKey_in_def serverKey_in_def)
qed

lemma generate_second_pool:
  assumes "1 \<le> iterations" and "16 \<le> length (rand_pool w)"
  shows "rand_pool (snd (generateSCRAMSHA256 password iterations w)) = drop 16 (rand_pool w)"
  by (simp add: generate_ok_world [OF assms])

lemma card_bytes_of_length: "card {s :: bytes. length s = n} = 256 ^ n"
  using card_lists_length_eq [of "UNIV :: byte set" n] by (simp add: card_word)

lemma doubled_lists:
  "{pool :: bytes. length pool = 32 \<and> take 16 pool = take 16 (drop 16 pool)}
     = (\<lambda>s. s @ s) ` {s. length s = 16}"
proof (intro set_eqI iffI)
  fix pool :: bytes
  assume "pool \<in> {pool. length pool = 32 \<and> take 16 pool = take 16 (drop 16 pool)}"
  then have len: "length pool = 32" and eq: "take 16 pool = take 16 (drop 16 pool)"
    by simp_all
  have "pool = take 16 pool @ drop 16 pool" by simp
  moreover have "take 16 (drop 16 pool) = drop 16 pool" using len by simp
  ultimately have "pool = take 16 pool @ take 16 pool" using eq by metis
  moreover have "length (take 16 pool) = 16" using len by simp
  ultimately show "pool \<in> (\<lambda>s. s @ s) ` {s. length s = 16}" by blast
next
  fix pool :: bytes
  assume "pool \<in> (\<lambda>s. s @ s) ` {s. length s = 16}"
  then obtain s where "pool = s @ s" "length s = 16" by blast
  then show "pool \<in> {pool. length pool = 32 \<and> take 16 pool = take 16 (drop 16 pool)}"
    by simp
qed

lemma card_doubled_lists:
  "card {pool :: bytes. length pool = 32 \<and> take 16 pool = take 16 (drop 16 pool)} = 2 ^ 128"
proof -
  have "inj_on (\<lambda>s :: bytes. s @ s) {s. length s = 16}"
    by (rule inj_onI) simp
  then have "card ((\<lambda>s :: bytes. s @ s) ` {s. length s = 16}) = card {s :: bytes. length s = 16}"
    by (rule card_image)
  also have "\<dots> = 256 ^ 16" by (rule card_bytes_of_length)
  also have "\<dots> = (2 :: nat) ^ 128" by simp
  finally show ?thesis unfolding doubled_lists .
qed

lemma repeated_output_iff:
  assumes "1 \<le> iterations" and "length pool = 32"
  shows "fst (generateSCRAMSHA256 password iterations (w\<lparr>rand_pool := pool\<rparr>))
           = fst (generateSCRAMSHA256 password iterations
                    (snd (generateSCRAMSHA256 password iterations (w\<lparr>rand_pool := pool\<rparr>))))
         \<longleftrightarrow> take 16 pool = take 16 (drop 16 pool)"
proof -
  let ?w = "w\<lparr>rand_pool := pool\<rparr>"
  let ?w1 = "snd (generateSCRAMSHA256 password iterations ?w)"
  have p0: "16 \<le> length (rand_pool ?w)" using assms(2) by simp
  have pool1: "rand_pool ?w1 = drop 16 pool"
    using generate_second_pool [OF assms(1) p0, of password] by simp
  have p1: "16 \<le> length (rand_pool ?w1)" using assms(2) pool1 by simp
  show ?thesis
    using generate_eq_iff_salt [OF assms(1) p0 p1, of password] pool1
    by (simp add: salt_in_def saltLength_def)
qed

section \<open>The claims\<close>

text \<open>
  C6: an iteration count below 1 is rejected before any cryptographic work. The call
  returns the empty string with the error and hands the world back as it received it:
  no byte has been drawn from the random source, and no call into the random source,
  PBKDF2, HMAC or SHA-256 has been recorded.
\<close>

theorem iterations_below_one_rejected_first:
  assumes "iterations < 1"
  shows "generateSCRAMSHA256 password iterations w
           = (([], Some (Error ''iterations must be at least 1'')), w)
         \<and> rand_pool (snd (generateSCRAMSHA256 password iterations w)) = rand_pool w
         \<and> calls (snd (generateSCRAMSHA256 password iterations w)) = calls w"
  using assms by (simp add: generate_below_one)

theorem iterations_below_one_rejected_first_witness:
  "(0::int) < 1
   \<and> generateSCRAMSHA256 ''pencil'' 0 example_world
       = (([], Some (Error ''iterations must be at least 1'')), example_world)
   \<and> rand_pool (snd (generateSCRAMSHA256 ''pencil'' 0 example_world))
       = [1, 2, 3, 4, 5, 6, 7, 8, 9, 10, 11, 12, 13, 14, 15, 16]
   \<and> calls (snd (generateSCRAMSHA256 ''pencil'' 0 example_world)) = []"
proof -
  have h: "(0::int) < 1" by simp
  show ?thesis
    using h iterations_below_one_rejected_first [OF h, of "''pencil''" example_world]
    by (simp add: example_world_def)
qed

text \<open>
  C1: for every password (in particular every non-empty, valid UTF-8 one), every
  iteration count of at least 1 and every 16-byte salt delivered by the random source,
  the four steps of the code compute SaltedPassword = PBKDF2-HMAC-SHA-256(password,
  salt, iterations, 32), ClientKey = HMAC-SHA-256(SaltedPassword, "Client Key"),
  StoredKey = SHA-256(ClientKey) and ServerKey = HMAC-SHA-256(SaltedPassword,
  "Server Key") as the standards define them, and the string returned is the formatted
  encoding of exactly this salt, StoredKey and ServerKey.
\<close>

theorem derivation_steps:
  assumes "1 \<le> iterations" and "length salt = 16" and "rand_pool w = salt @ rest"
  shows "let salted = SaltedPassword (bytes_of_string password) salt (nat iterations);
             client = ClientKey salted;
             stored = StoredKey client;
             server = ServerKey salted
         in saltedPassword_of password salt iterations = salted
            \<and> clientKeyBytes_of salted = client
            \<and> storedKey_of client = stored
            \<and> serverKeyBytes_of salted = server
            \<and> fst (generateSCRAMSHA256 password iterations w)
                = (Sprintf ''SCRAM-SHA-256$%d:%s$%s:%s''
                     [IntArg iterations, StrArg (base64_EncodeToString salt),
                      StrArg (base64_EncodeToString stored),
                      StrArg (base64_EncodeToString server)], None)"
proof -
  have pool: "16 \<le> length (rand_pool w)" using assms by simp
  have salt: "salt_in w = salt" using assms by (simp add: salt_in_def saltLength_def)
  have "fst (generateSCRAMSHA256 password iterations w)
          = (''SCRAM-SHA-256$'' @ fmt_d iterations @ '':''
              @ base64_EncodeToString salt @ ''$''
              @ base64_EncodeToString (storedKey_in password iterations w) @ '':''
              @ base64_EncodeToString (serverKey_in password iterations w), None)"
    using generate_ok [OF assms(1) pool, of password] salt by simp
  then show ?thesis
    unfolding Let_def Sprintf_verifier storedKey_in_def serverKey_in_def salt
      saltedPassword_of_SaltedPassword [OF assms(1)] clientKeyBytes_of_ClientKey
      storedKey_of_StoredKey serverKeyBytes_of_ServerKey
    by simp
qed

theorem derivation_steps_witness:
  "(1::int) \<le> 4096
   \<and> length [1, 2, 3, 4, 5, 6, 7, 8, 9, 10, 11, 12, 13, 14, 15, 16 :: byte] = 16
   \<and> rand_pool example_world = [1, 2, 3, 4, 5, 6, 7, 8, 9, 10, 11, 12, 13, 14, 15, 16] @ []
   \<and> fst (generateSCRAMSHA256 ''pencil'' 4096 example_world)
       = (Sprintf ''SCRAM-SHA-256$%d:%s$%s:%s''
            [IntArg 4096,
             StrArg (base64_EncodeToString [1, 2, 3, 4, 5, 6, 7, 8, 9, 10, 11, 12, 13, 14, 15, 16]),
             StrArg (base64_EncodeToString
               (StoredKey (ClientKey (SaltedPassword (bytes_of_string ''pencil'')
                  [1, 2, 3, 4, 5, 6, 7, 8, 9, 10, 11, 12, 13, 14, 15, 16] 4096)))),
             StrArg (base64_EncodeToString
               (ServerKey (SaltedPassword (bytes_of_string ''pencil'')
                  [1, 2, 3, 4, 5, 6, 7, 8, 9, 10, 11, 12, 13, 14, 15, 16] 4096)))], None)"
proof -
  have h1: "(1::int) \<le> 4096" by simp
  have h2: "length [1, 2, 3, 4, 5, 6, 7, 8, 9, 10, 11, 12, 13, 14, 15, 16 :: byte] = 16" by simp
  have h3: "rand_pool example_world
              = [1, 2, 3, 4, 5, 6, 7, 8, 9, 10, 11, 12, 13, 14, 15, 16] @ []"
    by (simp add: example_world_def)
  have "fst (generateSCRAMSHA256 ''pencil'' 4096 example_world)
       = (Sprintf ''SCRAM-SHA-256$%d:%s$%s:%s''
            [IntArg 4096,
             StrArg (base64_EncodeToString [1, 2, 3, 4, 5, 6, 7, 8, 9, 10, 11, 12, 13, 14, 15, 16]),
             StrArg (base64_EncodeToString
               (StoredKey (ClientKey (SaltedPassword (bytes_of_string ''pencil'')
                  [1, 2, 3, 4, 5, 6, 7, 8, 9, 10, 11, 12, 13, 14, 15, 16] 4096)))),
             StrArg (base64_EncodeToString
               (ServerKey (SaltedPassword (bytes_of_string ''pencil'')
                  [1, 2, 3, 4, 5, 6, 7, 8, 9, 10, 11, 12, 13, 14, 15, 16] 4096)))], None)"
    using derivation_steps [OF h1 h2 h3, of "''pencil''"]
    unfolding Let_def by (elim conjE) simp
  with h1 h2 h3 show ?thesis by (intro conjI)
qed

text \<open>
  C2: when the derivation succeeds, the string returned is the concatenation
  \<^verbatim>\<open>SCRAM-SHA-256$\<close>, the iteration count in decimal, \<^verbatim>\<open>:\<close>, the padded standard
  base64 of the salt, \<^verbatim>\<open>$\<close>, that of the StoredKey, \<^verbatim>\<open>:\<close>, and that of the
  ServerKey. The decimal text reads back as the iteration count, and the string holds no
  whitespace character.
\<close>

theorem output_format:
  assumes "snd (fst (generateSCRAMSHA256 password iterations w)) = None"
  shows "fst (fst (generateSCRAMSHA256 password iterations w))
           = ''SCRAM-SHA-256$'' @ decimal (nat iterations) @ '':''
               @ base64_EncodeToString (salt_in w) @ ''$''
               @ base64_EncodeToString (storedKey_in password iterations w) @ '':''
               @ base64_EncodeToString (serverKey_in password iterations w)
         \<and> parse_positive (decimal (nat iterations)) = Some iterations
         \<and> set (fst (fst (generateSCRAMSHA256 password iterations w))) \<inter> set whitespace = {}"
proof -
  have ok: "1 \<le> iterations" "16 \<le> length (rand_pool w)"
    using assms by (simp_all add: generate_success_iff)
  show ?thesis
    using generate_ok [OF ok, of password] generate_no_whitespace [OF ok, of password]
      parse_positive_fmt_d [OF ok(1)] fmt_d_positive [OF ok(1)]
    by simp
qed

theorem output_format_witness:
  "snd (fst (generateSCRAMSHA256 ''pencil'' 4096 example_world)) = None
   \<and> fst (fst (generateSCRAMSHA256 ''pencil'' 4096 example_world))
       = ''SCRAM-SHA-256$'' @ decimal (nat 4096) @ '':''
           @ base64_EncodeToString (salt_in example_world) @ ''$''
           @ base64_EncodeToString (storedKey_in ''pencil'' 4096 example_world) @ '':''
           @ base64_EncodeToString (serverKey_in ''pencil'' 4096 example_world)
   \<and> parse_positive (decimal (nat 4096)) = Some 4096
   \<and> set (fst (fst (generateSCRAMSHA256 ''pencil'' 4096 example_world))) \<inter> set whitespace = {}"
proof -
  have h: "snd (fst (generateSCRAMSHA256 ''pencil'' 4096 example_world)) = None"
    by (simp add: generate_success_iff example_world_def)
  from output_format [OF h] h show ?thesis by (intro conjI) (elim conjE, assumption)+
qed

text \<open>
  C3: with the salt fixed, the derivation is a function of the password and the
  iteration count. Two runs whose random sources deliver the same sixteen bytes return
  the same result, whatever else differs between the two worlds; and for an iteration
  count of at least 1 both outputs read back as the same StoredKey and ServerKey, the
  ones computed from the password, the salt and the iteration count.
\<close>

theorem deterministic_for_fixed_salt:
  assumes "length salt = 16" and "rand_pool w1 = salt @ rest1" and "rand_pool w2 = salt @ rest2"
  shows "fst (generateSCRAMSHA256 password iterations w1)
           = fst (generateSCRAMSHA256 password iterations w2)
         \<and> (1 \<le> iterations \<longrightarrow>
              parse_verifier (fst (fst (generateSCRAMSHA256 password iterations w1)))
                = Some (iterations, salt,
                        storedKey_of (clientKeyBytes_of (saltedPassword_of password salt iterations)),
                        serverKeyBytes_of (saltedPassword_of password salt iterations))
              \<and> parse_verifier (fst (fst (generateSCRAMSHA256 password iterations w2)))
                = Some (iterations, salt,
                        storedKey_of (clientKeyBytes_of (saltedPassword_of password salt iterations)),
                        serverKeyBytes_of (saltedPassword_of password salt iterations)))"
proof (cases "1 \<le> iterations")
  case True
  have pool: "16 \<le> length (rand_pool w1)" "16 \<le> length (rand_pool w2)"
    using assms by simp_all
  have salt: "salt_in w1 = salt" "salt_in w2 = salt"
    using assms by (simp_all add: salt_in_def saltLength_def)
  have keys: "storedKey_in password iterations w1 = storedKey_in password iterations w2"
    "serverKey_in password iterations w1 = serverKey_in password iterations w2"
    by (simp_all add: storedKey_in_def serverKey_in_def salt)
  show ?thesis
    using True generate_ok [OF True pool(1), of password] generate_ok [OF True pool(2), of password]
      generate_parse [OF True pool(1), of password] generate_parse [OF True pool(2), of password]
    by (simp add: salt keys) (simp add: storedKey_in_def serverKey_in_def salt)
next
  case False
  then show ?thesis by (simp add: generate_below_one)
qed

theorem deterministic_for_fixed_salt_witness:
  "length (rand_pool example_world) = 16
   \<and> rand_pool example_world = rand_pool example_world @ []
   \<and> rand_pool (example_world\<lparr>rand_pool := rand_pool example_world @ [7, 7], calls := [Rand_Read]\<rparr>)
       = rand_pool example_world @ [7, 7]
   \<and> (1::int) \<le> 4096
   \<and> fst (generateSCRAMSHA256 ''pencil'' 4096 example_world)
       = fst (generateSCRAMSHA256 ''pencil'' 4096
               (example_world\<lparr>rand_pool := rand_pool example_world @ [7, 7], calls := [Rand_Read]\<rparr>))
   \<and> parse_verifier (fst (fst (generateSCRAMSHA256 ''pencil'' 4096 example_world)))
       = Some (4096, rand_pool example_world,
               storedKey_of (clientKeyBytes_of
                 (saltedPassword_of ''pencil'' (rand_pool example_world) 4096)),
               serverKeyBytes_of (saltedPassword_of ''pencil'' (rand_pool example_world) 4096))"
proof -
  have h1: "length (rand_pool example_world) = 16" by (simp add: example_world_def)
  have h2: "rand_pool example_world = rand_pool example_world @ []" by simp
  have h3: "rand_pool (example_world\<lparr>rand_pool := rand_pool example_world @ [7, 7],
              calls := [Rand_Read]\<rparr>) = rand_pool example_world @ [7, 7]"
    by simp
  have h4: "(1::int) \<le> 4096" by simp
  from deterministic_for_fixed_salt [OF h1 h2 h3, of "''pencil''" 4096] h1 h2 h3 h4
  show ?thesis by blast
qed

text \<open>
  C4: when the derivation succeeds, splitting the output at \<^verbatim>\<open>$\<close> and \<^verbatim>\<open>:\<close> and
  decoding the fields gives back the iteration count that was passed in, a salt of
  exactly 16 bytes, and a StoredKey and a ServerKey of exactly 32 bytes each (the values
  the derivation computed).
\<close>

theorem format_round_trip:
  assumes "snd (fst (generateSCRAMSHA256 password iterations w)) = None"
  shows "parse_verifier (fst (fst (generateSCRAMSHA256 password iterations w)))
           = Some (iterations, salt_in w, storedKey_in password iterations w,
                   serverKey_in password iterations w)
         \<and> length (salt_in w) = 16
         \<and> length (storedKey_in password iterations w) = 32
         \<and> length (serverKey_in password iterations w) = 32"
proof -
  have ok: "1 \<le> iterations" "16 \<le> length (rand_pool w)"
    using assms by (simp_all add: generate_success_iff)
  show ?thesis
    using generate_parse [OF ok, of password] length_salt_in [OF ok(2)]
    by (simp add: length_storedKey_in length_serverKey_in)
qed

theorem format_round_trip_witness:
  "snd (fst (generateSCRAMSHA256 ''pencil'' 4096 example_world)) = None
   \<and> parse_verifier (fst (fst (generateSCRAMSHA256 ''pencil'' 4096 example_world)))
       = Some (4096, salt_in example_world, storedKey_in ''pencil'' 4096 example_world,
               serverKey_in ''pencil'' 4096 example_world)
   \<and> length (salt_in example_world) = 16
   \<and> length (storedKey_in ''pencil'' 4096 example_world) = 32
   \<and> length (serverKey_in ''pencil'' 4096 example_world) = 32"
proof -
  have h: "snd (fst (generateSCRAMSHA256 ''pencil'' 4096 example_world)) = None"
    by (simp add: generate_success_iff example_world_def)
  from format_round_trip [OF h] h show ?thesis by (intro conjI) (elim conjE, assumption)+
qed

text \<open>
  C10: when the derivation succeeds, the output has a shape fixed by the iteration count
  alone. Its four fields are the decimal iteration count, a salt field of exactly 24
  characters and StoredKey and ServerKey fields of exactly 44 characters each; none of
  the three base64 fields holds a \<^verbatim>\<open>$\<close> or a \<^verbatim>\<open>:\<close>; and the whole string is 129
  characters plus the decimal digits of the iteration count, of which there are \<open>k\<close>
  with \<open>10\<^sup>k\<^sup>-\<^sup>1 \<le> iterations < 10\<^sup>k\<close>.
\<close>

theorem output_shape:
  assumes "snd (fst (generateSCRAMSHA256 password iterations w)) = None"
  shows "case verifier_fields (fst (fst (generateSCRAMSHA256 password iterations w))) of
           None \<Rightarrow> False
         | Some (its, salt, storedkey, serverkey) \<Rightarrow>
             length salt = 24 \<and> length storedkey = 44 \<and> length serverkey = 44
             \<and> CHR ''$'' \<notin> set (salt @ storedkey @ serverkey)
             \<and> CHR '':'' \<notin> set (salt @ storedkey @ serverkey)
             \<and> length (fst (fst (generateSCRAMSHA256 password iterations w))) = 129 + length its
             \<and> 10 ^ (length its - 1) \<le> iterations \<and> iterations < 10 ^ length its"
proof -
  have ok: "1 \<le> iterations" "16 \<le> length (rand_pool w)"
    using assms by (simp_all add: generate_success_iff)
  have pos: "0 < nat iterations" using ok(1) by simp
  have lens: "length (base64_EncodeToString (salt_in w)) = 24"
    "length (base64_EncodeToString (storedKey_in password iterations w)) = 44"
    "length (base64_EncodeToString (serverKey_in password iterations w)) = 44"
    by (simp_all add: length_base64 length_salt_in [OF ok(2)] length_storedKey_in
        length_serverKey_in)
  have total: "length (fst (fst (generateSCRAMSHA256 password iterations w)))
                 = 129 + length (decimal (nat iterations))"
    unfolding generate_ok [OF ok] fst_conv fmt_d_positive [OF ok(1)]
    by (simp add: lens)
  have "int (10 ^ (length (decimal (nat iterations)) - 1)) \<le> int (nat iterations)"
    "int (nat iterations) < int (10 ^ length (decimal (nat iterations)))"
    using decimal_bounds [OF pos] by (simp_all only: of_nat_le_iff of_nat_less_iff)
  then have bounds: "10 ^ (length (decimal (nat iterations)) - 1) \<le> iterations"
    "iterations < 10 ^ length (decimal (nat iterations))"
    using ok(1) by simp_all
  show ?thesis
    unfolding generate_fields [OF ok]
    using lens total bounds
    by (simp add: base64_no_dollar base64_no_colon)
qed

theorem output_shape_witness:
  "snd (fst (generateSCRAMSHA256 ''pencil'' 4096 example_world)) = None
   \<and> (case verifier_fields (fst (fst (generateSCRAMSHA256 ''pencil'' 4096 example_world))) of
         None \<Rightarrow> False
       | Some (its, salt, storedkey, serverkey) \<Rightarrow>
           length salt = 24 \<and> length storedkey = 44 \<and> length serverkey = 44
           \<and> CHR ''$'' \<notin> set (salt @ storedkey @ serverkey)
           \<and> CHR '':'' \<notin> set (salt @ storedkey @ serverkey)
           \<and> length (fst (fst (generateSCRAMSHA256 ''pencil'' 4096 example_world)))
               = 129 + length its
           \<and> 10 ^ (length its - 1) \<le> (4096::int) \<and> (4096::int) < 10 ^ length its)"
proof -
  have h: "snd (fst (generateSCRAMSHA256 ''pencil'' 4096 example_world)) = None"
    by (simp add: generate_success_iff example_world_def)
  from output_shape [OF h] h show ?thesis by (intro conjI)
qed

text \<open>
  C7: the derivation returns all or nothing. It fails exactly when the iteration count
  is below 1 or the random source cannot fill the salt; whenever it reports an error the
  string is empty, and whenever it reports none the string is a valid verifier string.
  A failure of the random source is passed on as it is (the error returned wraps the
  source's own error) after a single read: no second read, no other source, no
  cryptographic call.
\<close>

theorem all_or_nothing:
  "(snd (fst (generateSCRAMSHA256 password iterations w)) = None
      \<longleftrightarrow> 1 \<le> iterations \<and> 16 \<le> length (rand_pool w))
   \<and> (snd (fst (generateSCRAMSHA256 password iterations w)) \<noteq> None
        \<longrightarrow> fst (fst (generateSCRAMSHA256 password iterations w)) = [])
   \<and> (snd (fst (generateSCRAMSHA256 password iterations w)) = None
        \<longrightarrow> valid_VerifierString (fst (fst (generateSCRAMSHA256 password iterations w))))
   \<and> (iterations < 1
        \<longrightarrow> fst (generateSCRAMSHA256 password iterations w)
              = ([], Some (Error ''iterations must be at least 1'')))
   \<and> (1 \<le> iterations \<and> length (rand_pool w) < 16
        \<longrightarrow> fst (generateSCRAMSHA256 password iterations w)
              = ([], Some (Wrapped ''failed to generate salt: '' (rand_err w)))
            \<and> calls (snd (generateSCRAMSHA256 password iterations w)) = calls w @ [Rand_Read])"
proof -
  consider "iterations < 1" | "1 \<le> iterations" "length (rand_pool w) < 16"
    | "1 \<le> iterations" "16 \<le> length (rand_pool w)"
    by linarith
  then show ?thesis
  proof cases
    case 1
    then show ?thesis by (simp add: generate_below_one)
  next
    case 2
    then show ?thesis by (simp add: generate_no_salt called_def)
  next
    case 3
    then show ?thesis
      using generate_valid [OF 3, of password] generate_ok [OF 3, of password] by simp
  qed
qed

theorem all_or_nothing_witness:
  "fst (generateSCRAMSHA256 ''pencil'' 0 example_world)
     = ([], Some (Error ''iterations must be at least 1''))
   \<and> fst (generateSCRAMSHA256 ''pencil'' 4096 (example_world\<lparr>rand_pool := [1, 2, 3]\<rparr>))
     = ([], Some (Wrapped ''failed to generate salt: '' (Error ''unexpected EOF'')))
   \<and> calls (snd (generateSCRAMSHA256 ''pencil'' 4096 (example_world\<lparr>rand_pool := [1, 2, 3]\<rparr>)))
     = [Rand_Read]
   \<and> snd (fst (generateSCRAMSHA256 ''pencil'' 4096 example_world)) = None
   \<and> valid_VerifierString (fst (fst (generateSCRAMSHA256 ''pencil'' 4096 example_world)))"
proof -
  have a: "fst (generateSCRAMSHA256 ''pencil'' 0 example_world)
             = ([], Some (Error ''iterations must be at least 1''))"
    using all_or_nothing [of "''pencil''" 0 example_world] by simp
  have b: "fst (generateSCRAMSHA256 ''pencil'' 4096 (example_world\<lparr>rand_pool := [1, 2, 3]\<rparr>))
             = ([], Some (Wrapped ''failed to generate salt: '' (Error ''unexpected EOF'')))
           \<and> calls (snd (generateSCRAMSHA256 ''pencil'' 4096
                (example_world\<lparr>rand_pool := [1, 2, 3]\<rparr>))) = [Rand_Read]"
    using all_or_nothing [of "''pencil''" 4096 "example_world\<lparr>rand_pool := [1, 2, 3]\<rparr>"]
    by (simp add: example_world_def)
  have c: "snd (fst (generateSCRAMSHA256 ''pencil'' 4096 example_world)) = None
           \<and> valid_VerifierString (fst (fst (generateSCRAMSHA256 ''pencil'' 4096 example_world)))"
    using all_or_nothing [of "''pencil''" 4096 example_world]
    by (simp add: example_world_def)
  from a b c show ?thesis by blast
qed

text \<open>
  C8: reading the password from a piped stream. When the stream delivers a line, or ends
  regularly before a newline, no error is returned: the end of the stream terminates the
  password as a newline does. The password is the line read with nothing but trailing
  carriage returns and line feeds removed: the line is the password followed by
  characters that are all CR or LF, the password does not end in CR or LF, and so every
  other character of the line, interior whitespace included, is kept.
\<close>

theorem stdin_password_trimmed:
  assumes "stdin_end w = io_EOF \<or> CHR 0x0A \<in> set (stdin_data w)"
  shows "snd (fst (readPasswordFromStdin w)) = None
         \<and> (\<exists>t. fst (fst (ReadString (CHR 0x0A) w)) = fst (fst (readPasswordFromStdin w)) @ t
                \<and> set t \<subseteq> {CHR 0x0D, CHR 0x0A})
         \<and> (fst (fst (readPasswordFromStdin w)) = []
              \<or> last (fst (fst (readPasswordFromStdin w))) \<notin> {CHR 0x0D, CHR 0x0A})
         \<and> (CHR 0x0A \<notin> set (stdin_data w)
              \<longrightarrow> fst (fst (ReadString (CHR 0x0A) w)) = stdin_data w)"
proof -
  let ?line = "fst (fst (ReadString (CHR 0x0A) w))"
  have r: "fst (readPasswordFromStdin w) = (strings_TrimRight ?line [CHR 0x0D, CHR 0x0A], None)"
    by (rule readPasswordFromStdin_line [OF assms])
  have "\<exists>t. ?line = strings_TrimRight ?line [CHR 0x0D, CHR 0x0A] @ t
              \<and> set t \<subseteq> set [CHR 0x0D, CHR 0x0A]"
    by (rule TrimRight_split)
  moreover have "strings_TrimRight ?line [CHR 0x0D, CHR 0x0A] = []
                 \<or> last (strings_TrimRight ?line [CHR 0x0D, CHR 0x0A]) \<notin> set [CHR 0x0D, CHR 0x0A]"
    by (rule TrimRight_last)
  moreover have "CHR 0x0A \<notin> set (stdin_data w) \<longrightarrow> ?line = stdin_data w"
    by (simp add: ReadString_def Let_def)
  ultimately show ?thesis unfolding r by simp
qed

theorem stdin_password_trimmed_witness:
  "stdin_end (example_world\<lparr>stdin_data := ''pass  word '' @ [CHR 0x0D]\<rparr>) = io_EOF
   \<and> snd (fst (readPasswordFromStdin (example_world\<lparr>stdin_data := ''pass  word '' @ [CHR 0x0D]\<rparr>)))
       = None
   \<and> fst (fst (ReadString (CHR 0x0A) (example_world\<lparr>stdin_data := ''pass  word '' @ [CHR 0x0D]\<rparr>)))
       = ''pass  word '' @ [CHR 0x0D]
   \<and> fst (fst (readPasswordFromStdin (example_world\<lparr>stdin_data := ''pass  word '' @ [CHR 0x0D]\<rparr>)))
       = ''pass  word ''"
proof -
  let ?w = "example_world\<lparr>stdin_data := ''pass  word '' @ [CHR 0x0D]\<rparr>"
  have e: "stdin_end ?w = io_EOF"
    by (simp add: example_world_def)
  then have h: "stdin_end ?w = io_EOF \<or> CHR 0x0A \<in> set (stdin_data ?w)" ..
  have nl: "CHR 0x0A \<notin> set (stdin_data ?w)" by simp
  have d: "stdin_data ?w = ''pass  word '' @ [CHR 0x0D]" by simp
  have ok: "snd (fst (readPasswordFromStdin ?w)) = None"
    and line: "fst (fst (ReadString (CHR 0x0A) ?w)) = ''pass  word '' @ [CHR 0x0D]"
    using stdin_password_trimmed [OF h] nl d by metis+
  have "fst (fst (readPasswordFromStdin ?w)) = ''pass  word ''"
    unfolding readPasswordFromStdin_line [OF h] line fst_conv
    by (simp add: strings_TrimRight_def)
  with e ok line show ?thesis by (intro conjI)
qed

text \<open>
  C9: two derivations in a row with the same password and iteration count. Each call
  draws its own salt: the first output carries the first sixteen bytes of the random
  source and the second output the next sixteen, whatever the password is, and no byte
  serves twice. The two outputs differ exactly when these two salts differ. Counting the
  outcomes of a source that delivers 32 bytes: of the \<open>2\<^sup>2\<^sup>5\<^sup>6\<close> possible outcomes only
  \<open>2\<^sup>1\<^sup>2\<^sup>8\<close> make the two outputs equal, so for uniformly distributed bytes the outputs
  coincide with probability \<open>2\<^sup>-\<^sup>1\<^sup>2\<^sup>8\<close>.
\<close>

theorem fresh_salt_every_call:
  assumes "1 \<le> iterations"
  shows "(32 \<le> length (rand_pool w) \<longrightarrow>
            (let first = generateSCRAMSHA256 password iterations w;
                 second = generateSCRAMSHA256 password iterations (snd first)
             in map_option (fst \<circ> snd) (parse_verifier (fst (fst first)))
                  = Some (take 16 (rand_pool w))
                \<and> map_option (fst \<circ> snd) (parse_verifier (fst (fst second)))
                  = Some (take 16 (drop 16 (rand_pool w)))
                \<and> rand_pool (snd second) = drop 32 (rand_pool w)
                \<and> (fst first \<noteq> fst second
                     \<longleftrightarrow> take 16 (rand_pool w) \<noteq> take 16 (drop 16 (rand_pool w)))))
         \<and> card {pool. length pool = 32
                  \<and> fst (generateSCRAMSHA256 password iterations (w\<lparr>rand_pool := pool\<rparr>))
                    = fst (generateSCRAMSHA256 password iterations
                        (snd (generateSCRAMSHA256 password iterations (w\<lparr>rand_pool := pool\<rparr>))))}
             = 2 ^ 128
         \<and> card {pool :: bytes. length pool = 32} = 2 ^ 256"
proof (intro conjI impI)
  assume len: "32 \<le> length (rand_pool w)"
  let ?w1 = "snd (generateSCRAMSHA256 password iterations w)"
  let ?w2 = "snd (generateSCRAMSHA256 password iterations ?w1)"
  have p0: "16 \<le> length (rand_pool w)" using len by simp
  have pool1: "rand_pool ?w1 = drop 16 (rand_pool w)"
    by (rule generate_second_pool [OF assms p0])
  have p1: "16 \<le> length (rand_pool ?w1)" using len pool1 by simp
  have pool2: "rand_pool ?w2 = drop 32 (rand_pool w)"
    using generate_second_pool [OF assms p1, of password] pool1 by simp
  have s0: "salt_in w = take 16 (rand_pool w)"
    and s1: "salt_in ?w1 = take 16 (drop 16 (rand_pool w))"
    using pool1 by (simp_all add: salt_in_def saltLength_def)
  show "let first = generateSCRAMSHA256 password iterations w;
            second = generateSCRAMSHA256 password iterations (snd first)
        in map_option (fst \<circ> snd) (parse_verifier (fst (fst first)))
             = Some (take 16 (rand_pool w))
           \<and> map_option (fst \<circ> snd) (parse_verifier (fst (fst second)))
             = Some (take 16 (drop 16 (rand_pool w)))
           \<and> rand_pool (snd second) = drop 32 (rand_pool w)
           \<and> (fst first \<noteq> fst second
                \<longleftrightarrow> take 16 (rand_pool w) \<noteq> take 16 (drop 16 (rand_pool w)))"
    unfolding Let_def
    using generate_parse [OF assms p0, of password] generate_parse [OF assms p1, of password]
      generate_eq_iff_salt [OF assms p0 p1, of password] pool2 s0 s1
    by simp
next
  have "{pool. length pool = 32
          \<and> fst (generateSCRAMSHA256 password iterations (w\<lparr>rand_pool := pool\<rparr>))
            = fst (generateSCRAMSHA256 password iterations
                (snd (generateSCRAMSHA256 password iterations (w\<lparr>rand_pool := pool\<rparr>))))}
        = {pool. length pool = 32 \<and> take 16 pool = take 16 (drop 16 pool)}"
    using repeated_output_iff [OF assms, of _ password w] by blast
  then show "card {pool. length pool = 32
          \<and> fst (generateSCRAMSHA256 password iterations (w\<lparr>rand_pool := pool\<rparr>))
            = fst (generateSCRAMSHA256 password iterations
                (snd (generateSCRAMSHA256 password iterations (w\<lparr>rand_pool := pool\<rparr>))))}
        = 2 ^ 128"
    by (simp only: card_doubled_lists)
next
  show "card {pool :: bytes. length pool = 32} = 2 ^ 256"
    by (simp add: card_bytes_of_length)
qed

theorem fresh_salt_every_call_witness:
  "(1::int) \<le> 4096
   \<and> 32 \<le> length (rand_pool (example_world\<lparr>rand_pool := replicate 16 7 @ replicate 16 9\<rparr>))
   \<and> fst (generateSCRAMSHA256 ''pencil'' 4096
            (example_world\<lparr>rand_pool := replicate 16 7 @ replicate 16 9\<rparr>))
       \<noteq> fst (generateSCRAMSHA256 ''pencil'' 4096
            (snd (generateSCRAMSHA256 ''pencil'' 4096
               (example_world\<lparr>rand_pool := replicate 16 7 @ replicate 16 9\<rparr>))))"
proof -
  let ?w = "example_world\<lparr>rand_pool := replicate 16 7 @ replicate 16 9\<rparr>"
  have h1: "(1::int) \<le> 4096" by simp
  have h2: "32 \<le> length (rand_pool ?w)" by simp
  have "take 16 (rand_pool ?w) \<noteq> take 16 (drop 16 (rand_pool ?w))" by simp
  then have "fst (generateSCRAMSHA256 ''pencil'' 4096 ?w)
       \<noteq> fst (generateSCRAMSHA256 ''pencil'' 4096
            (snd (generateSCRAMSHA256 ''pencil'' 4096 ?w)))"
    using fresh_salt_every_call [OF h1, of ?w "''pencil''"] h2 unfolding Let_def by blast
  with h1 h2 show ?thesis by (intro conjI)
qed

text \<open>
  C5, as the code has it: the password is checked by \<^verbatim>\<open>validatePassword\<close>, which
  \<^verbatim>\<open>main\<close> calls before the derivation, and not by \<^verbatim>\<open>generateSCRAMSHA256\<close>.
  The counterexample: given an empty password, or one that is not valid UTF-8, the
  derivation function itself reports no error and returns a verifier string.
\<close>

theorem derivation_accepts_any_password:
  "validatePassword [] \<noteq> None
   \<and> snd (fst (generateSCRAMSHA256 [] 1 example_world)) = None
   \<and> fst (fst (generateSCRAMSHA256 [] 1 example_world)) \<noteq> []
   \<and> \<not> utf8_ValidString [CHR 0xFF]
   \<and> snd (fst (generateSCRAMSHA256 [CHR 0xFF] 1 example_world)) = None
   \<and> fst (fst (generateSCRAMSHA256 [CHR 0xFF] 1 example_world)) \<noteq> []"
proof -
  have p: "(1::int) \<le> 1" "16 \<le> length (rand_pool example_world)"
    by (simp_all add: example_world_def)
  show ?thesis
    using generate_nonempty [OF p] invalid_utf8_example
    by (simp add: generate_success_iff p validatePassword_def)
qed

text \<open>
  C5 amended: \<^verbatim>\<open>validatePassword\<close> rejects an empty password with the error
  "password cannot be empty" and a non-empty password that is not valid UTF-8 with
  "password must be valid UTF-8", and accepts every other password. \<^verbatim>\<open>main\<close> runs it on
  the password it has read, before the derivation: when the check fails, the program
  prints "Invalid password: " and the error to the standard error stream and exits with
  status 1, and neither the random source nor any cryptographic function has been
  called.
\<close>

theorem password_checked_before_derivation:
  "validatePassword [] = Some (Error ''password cannot be empty'')
   \<and> (password \<noteq> [] \<and> \<not> utf8_ValidString password
        \<longrightarrow> validatePassword password = Some (Error ''password must be valid UTF-8''))
   \<and> (password \<noteq> [] \<and> utf8_ValidString password \<longrightarrow> validatePassword password = None)
   \<and> (\<not> ShowHelp config
        \<and> (if UseStdin config then readPasswordFromStdin w else promptPassword w)
            = ((password, None), w1)
        \<and> validatePassword password = Some e
        \<longrightarrow> main config w = (1, w1\<lparr>stderr := stderr w1 @ ''Invalid password: ''
                                            @ Error_text e @ [CHR 0x0A]\<rparr>)
            \<and> calls (snd (main config w)) = calls w
            \<and> rand_pool (snd (main config w)) = rand_pool w)"
proof (intro conjI impI)
  show "validatePassword [] = Some (Error ''password cannot be empty'')"
    by (simp add: validatePassword_def)
next
  assume "password \<noteq> [] \<and> \<not> utf8_ValidString password"
  then show "validatePassword password = Some (Error ''password must be valid UTF-8'')"
    by (simp add: validatePassword_def)
next
  assume "password \<noteq> [] \<and> utf8_ValidString password"
  then show "validatePassword password = None"
    by (simp add: validatePassword_def)
next
  assume a: "\<not> ShowHelp config
        \<and> (if UseStdin config then readPasswordFromStdin w else promptPassword w)
            = ((password, None), w1)
        \<and> validatePassword password = Some e"
  then have a1: "\<not> ShowHelp config"
    and a2: "(if UseStdin config then readPasswordFromStdin w else promptPassword w)
               = ((password, None), w1)"
    and a3: "validatePassword password = Some e"
    by blast+
  have m: "main config w
             = (1, Fprintf_Stderr (''Invalid password: %v'' @ [CHR 0x0A]) [ErrArg e] w1)"
    by (rule main_invalid_password [OF a1 a2 a3])
  have w1: "w1 = snd (if UseStdin config then readPasswordFromStdin w else promptPassword w)"
    unfolding a2 by simp
  have keep: "calls w1 = calls w" "rand_pool w1 = rand_pool w"
    unfolding w1 using readPasswordFromStdin_world [of w] promptPassword_world [of w]
    by (simp_all split: if_splits)
  show "main config w = (1, w1\<lparr>stderr := stderr w1 @ ''Invalid password: ''
                                   @ Error_text e @ [CHR 0x0A]\<rparr>)"
    unfolding m by (simp add: Fprintf_Stderr_def print_err_def)
  show "calls (snd (main config w)) = calls w"
    unfolding m using keep Fprintf_Stderr_world by simp
  show "rand_pool (snd (main config w)) = rand_pool w"
    unfolding m using keep Fprintf_Stderr_world by simp
qed

theorem password_checked_before_derivation_witness:
  "validatePassword [CHR 0xFF] = Some (Error ''password must be valid UTF-8'')
   \<and> validatePassword ''pencil'' = None
   \<and> fst (main \<lparr>UseStdin = True, ShowHelp = False, Iterations = 4096\<rparr>
             (example_world\<lparr>stdin_data := [CHR 0x0A]\<rparr>)) = 1
   \<and> stderr (snd (main \<lparr>UseStdin = True, ShowHelp = False, Iterations = 4096\<rparr>
                    (example_world\<lparr>stdin_data := [CHR 0x0A]\<rparr>)))
       = ''Invalid password: password cannot be empty'' @ [CHR 0x0A]
   \<and> calls (snd (main \<lparr>UseStdin = True, ShowHelp = False, Iterations = 4096\<rparr>
                   (example_world\<lparr>stdin_data := [CHR 0x0A]\<rparr>))) = []
   \<and> rand_pool (snd (main \<lparr>UseStdin = True, ShowHelp = False, Iterations = 4096\<rparr>
                       (example_world\<lparr>stdin_data := [CHR 0x0A]\<rparr>)))
       = [1, 2, 3, 4, 5, 6, 7, 8, 9, 10, 11, 12, 13, 14, 15, 16]"
proof -
  let ?cfg = "\<lparr>UseStdin = True, ShowHelp = False, Iterations = 4096\<rparr>"
  let ?w = "example_world\<lparr>stdin_data := [CHR 0x0A]\<rparr>"
  let ?w1 = "example_world\<lparr>stdin_data := []\<rparr>"
  have bad: "[CHR 0xFF] \<noteq> [] \<and> \<not> utf8_ValidString [CHR 0xFF]"
    using invalid_utf8_example by simp
  have good: "''pencil'' \<noteq> [] \<and> utf8_ValidString ''pencil''"
    by (simp add: utf8_ValidString_def bytes_of_string_def)
  have rd: "\<not> ShowHelp ?cfg
            \<and> (if UseStdin ?cfg then readPasswordFromStdin ?w else promptPassword ?w)
                = (([], None), ?w1)
            \<and> validatePassword [] = Some (Error ''password cannot be empty'')"
    by (simp add: readPasswordFromStdin_def ReadString_def Let_def strings_TrimRight_def
        validatePassword_def)
  have a: "validatePassword [CHR 0xFF] = Some (Error ''password must be valid UTF-8'')"
    using password_checked_before_derivation [of "[CHR 0xFF]"] bad by blast
  have b: "validatePassword ''pencil'' = None"
    using password_checked_before_derivation [of "''pencil''"] good by blast
  have c: "main ?cfg ?w
             = (1, ?w1\<lparr>stderr := stderr ?w1 @ ''Invalid password: ''
                          @ Error_text (Error ''password cannot be empty'') @ [CHR 0x0A]\<rparr>)
           \<and> calls (snd (main ?cfg ?w)) = calls ?w
           \<and> rand_pool (snd (main ?cfg ?w)) = rand_pool ?w"
    using password_checked_before_derivation
            [of "[]" ?cfg ?w ?w1 "Error ''password cannot be empty''"] rd
    by blast
  from a b c show ?thesis by (simp add: example_world_def)
qed

end
